theory Spec2Isabelle
  imports Complex_Main "HOL-Library.Word"
begin

unbundle bit_operations_syntax

section \<open>Data model of \<^verbatim>\<open>dronekit/__init__.py\<close>\<close>

text \<open>
  The module is Python 2 (it imports \<^verbatim>\<open>Queue\<close> and only \<^verbatim>\<open>print_function\<close> from
  \<^verbatim>\<open>__future__\<close>), so \<^verbatim>\<open>/\<close> on two integers is floor division.

  Modelled from the spec: the message classes are the external codec's (pymavlink) and
  not in the source.  The variants below are those of the spec's data model whose fields
  the link manager reads; every other message type is \<open>OTHER name\<close>.  The
  integer fields \<^verbatim>\<open>seq\<close>, \<^verbatim>\<open>count\<close>, \<^verbatim>\<open>param_index\<close> and \<^verbatim>\<open>param_count\<close> are unsigned
  16-bit fields on the wire; the decoded values are Python integers that the code only
  compares and increments, so they are natural numbers here.  \<^verbatim>\<open>flags\<close> is the unsigned
  16-bit flag field and the \<^verbatim>\<open>pointing\<close> fields are signed integers (centidegrees).
\<close>

record waypoint =
  seq :: nat
  wp_target_system :: nat
  wp_target_component :: nat
  wp_command :: nat

datatype msg =
    PARAM_VALUE (param_id: string) (param_value: real) (param_index: nat) (param_count: nat)
  | MISSION_COUNT nat
  | WAYPOINT_COUNT nat
  | MISSION_ITEM waypoint
  | WAYPOINT waypoint
  | MISSION_CURRENT nat
  | WAYPOINT_CURRENT nat
  | MISSION_REQUEST nat
  | WAYPOINT_REQUEST nat
  | HEARTBEAT
  | MOUNT_STATUS (pointing_a: int) (pointing_b: int) (pointing_c: int)
  | EKF_STATUS_REPORT (flags: "16 word")
  | OTHER string

fun get_type :: "msg \<Rightarrow> string" where
  "get_type (PARAM_VALUE i v k n) = ''PARAM_VALUE''"
| "get_type (MISSION_COUNT n) = ''MISSION_COUNT''"
| "get_type (WAYPOINT_COUNT n) = ''WAYPOINT_COUNT''"
| "get_type (MISSION_ITEM w) = ''MISSION_ITEM''"
| "get_type (WAYPOINT w) = ''WAYPOINT''"
| "get_type (MISSION_CURRENT s) = ''MISSION_CURRENT''"
| "get_type (WAYPOINT_CURRENT s) = ''WAYPOINT_CURRENT''"
| "get_type (MISSION_REQUEST s) = ''MISSION_REQUEST''"
| "get_type (WAYPOINT_REQUEST s) = ''WAYPOINT_REQUEST''"
| "get_type HEARTBEAT = ''HEARTBEAT''"
| "get_type (MOUNT_STATUS a b c) = ''MOUNT_STATUS''"
| "get_type (EKF_STATUS_REPORT fl) = ''EKF_STATUS_REPORT''"
| "get_type (OTHER name) = name"

text \<open>
  What the link manager hands to the codec for sending.  Every \<^verbatim>\<open>*_send\<close> call of the
  source encodes one message and puts it on \<^verbatim>\<open>out_queue\<close> (through \<^verbatim>\<open>MavWriter.write\<close>);
  the byte encoding is the codec's and is not modelled.
\<close>

datatype packet =
    Heartbeat_send
  | Param_request_read_send nat nat string nat
  | Waypoint_request_send nat
  | Waypoint_request_list_send
  | Waypoint_clear_all_send
  | Waypoint_count_send nat
  | Mav_send waypoint

datatype error = AttributeError | IndexError | ValueError | Exception string

text \<open>
  A call either returns the new state (\<open>Inr\<close>) or raises (\<open>Inl\<close>); Python keeps the
  mutations made before the raise, so the raise carries the state it left behind.
\<close>

type_synonym 'a result = "(error \<times> 'a) + 'a"

fun after :: "'a result \<Rightarrow> 'a" where
  "after (Inl (e, s)) = s"
| "after (Inr s) = s"

text \<open>The \<^verbatim>\<open>PState\<close> object built in \<^verbatim>\<open>prepare\<close>; a slot is \<open>None\<close> while unknown.\<close>

record pstate =
  mav_param_count :: int
  mav_param_set :: "msg option list"
  loaded :: bool
  start :: bool

text \<open>
  Modelled from the spec: \<^verbatim>\<open>mavwp.MAVWPLoader\<close> is the codec library's and not in the
  source.  The spec's download side is a received list and an expected count; the code
  uses \<^verbatim>\<open>count()\<close> (the length of the list), \<^verbatim>\<open>add\<close> (append), \<^verbatim>\<open>clear\<close> (empty the list),
  \<^verbatim>\<open>wp(i)\<close> (the waypoint at an index) and the attribute \<^verbatim>\<open>expected_count\<close>.
\<close>

record mavwploader =
  wpoints :: "waypoint list"
  expected_count :: nat

text \<open>
  The fields of \<^verbatim>\<open>MPFakeState\<close> the link manager and the listeners below use.
  \<open>out_queue\<close> is the outbound queue, \<open>wire\<close> what \<^verbatim>\<open>master.write\<close> has put on the
  transport, \<open>master_target_system\<close>, \<open>master_target_component\<close> and \<open>master_closed\<close>
  the state of the \<^verbatim>\<open>master\<close> connection object, \<open>params\<close> the \<^verbatim>\<open>PState\<close> object and
  \<open>notified\<close> the record of \<^verbatim>\<open>notify_observers\<close> calls.
\<close>

record link =
  out_queue :: "packet list"
  wire :: "packet list"
  target_system :: nat
  target_component :: nat
  master_target_system :: nat
  master_target_component :: nat
  master_closed :: bool
  mav_param :: "string \<rightharpoonup> real"
  wploader :: mavwploader
  wp_loaded :: bool
  wp_uploaded :: "bool list option"
  last_waypoint :: nat
  armed :: bool
  ekf_ok :: bool
  mount_pitch :: "int option"
  mount_yaw :: "int option"
  mount_roll :: "int option"
  notified :: "string list"
  params :: pstate
  exiting :: bool

text \<open>
  The flag constants of the \<^verbatim>\<open>ardupilotmega\<close> dialect that the EKF listener reads; the
  dialect module is the codec's, so the constants are parameters of the model.
\<close>

record ardupilotmega =
  EKF_POS_HORIZ_ABS :: "16 word"
  EKF_CONST_POS_MODE :: "16 word"
  EKF_PRED_POS_HORIZ_ABS :: "16 word"

section \<open>Default listeners\<close>

text \<open>
  \<^verbatim>\<open>_notify_attribute_listeners\<close> calls \<^verbatim>\<open>vehicle.notify_observers\<close> once per name, in
  order.  Modelled from the spec: the vehicle class (\<^verbatim>\<open>dronekit.lib\<close>) is not in the
  source; a failing observer is logged and skipped there, so the call returns, and the
  names notified are recorded.
\<close>

definition notify_attribute_listeners :: "string list \<Rightarrow> link \<Rightarrow> link" where
  "notify_attribute_listeners args st = st\<lparr>notified := notified st @ args\<rparr>"

text \<open>
  The \<^verbatim>\<open>MOUNT_STATUS\<close> listener: \<^verbatim>\<open>m.pointing_a / 100\<close> on Python 2 integers is floor
  division, which is \<open>div\<close> on \<open>int\<close>.  A message without the fields raises.
\<close>

fun mount_status_listener :: "msg \<Rightarrow> link \<Rightarrow> link result" where
  "mount_status_listener (MOUNT_STATUS a b c) st =
     Inr (notify_attribute_listeners [''mount'']
       (st\<lparr>mount_pitch := Some (a div 100),
           mount_roll := Some (b div 100),
           mount_yaw := Some (c div 100)\<rparr>))"
| "mount_status_listener m st = Inl (AttributeError, st)"

text \<open>The \<^verbatim>\<open>EKF_STATUS_REPORT\<close> listener.  In Python \<^verbatim>\<open>&\<close> binds tighter than \<^verbatim>\<open>>\<close>.\<close>

fun ekf_status_report_listener :: "ardupilotmega \<Rightarrow> msg \<Rightarrow> link \<Rightarrow> link result" where
  "ekf_status_report_listener c (EKF_STATUS_REPORT fl) st =
     (let status_poshorizabs = (fl AND EKF_POS_HORIZ_ABS c) > 0;
          status_constposmode = (fl AND EKF_CONST_POS_MODE c) > 0;
          status_predposhorizabs = (fl AND EKF_PRED_POS_HORIZ_ABS c) > 0
      in Inr (notify_attribute_listeners [''ekf_ok'']
           (if armed st
            then st\<lparr>ekf_ok := status_poshorizabs \<and> \<not> status_constposmode\<rparr>
            else st\<lparr>ekf_ok := status_poshorizabs \<or> status_predposhorizabs\<rparr>)))"
| "ekf_status_report_listener c m st = Inl (AttributeError, st)"

section \<open>Message listeners\<close>

text \<open>
  \<^verbatim>\<open>message_listeners\<close> is a dict from a message-type name to a list of callbacks.
  A callback is a Python function object; \<^verbatim>\<open>fn not in list\<close> compares by identity,
  so callbacks are identifiers \<open>'f\<close> and what a callback does when called is given
  separately (\<open>run\<close> below).
\<close>

type_synonym 'f listeners = "string \<rightharpoonup> 'f list"

definition on_message :: "string \<Rightarrow> 'f \<Rightarrow> 'f listeners \<Rightarrow> 'f listeners" where
  "on_message name f ls =
     (let ls1 = (if ls name = None then ls(name \<mapsto> []) else ls)
      in case ls1 name of
           None \<Rightarrow> ls1
         | Some fns \<Rightarrow> if f \<notin> set fns then ls1(name \<mapsto> fns @ [f]) else ls1)"

text \<open>\<^verbatim>\<open>list.remove\<close> deletes the first occurrence and raises \<^verbatim>\<open>ValueError\<close> when there is none.\<close>

definition remove_message_listener ::
  "string \<Rightarrow> 'f \<Rightarrow> 'f listeners \<Rightarrow> (error \<times> 'f listeners) + 'f listeners" where
  "remove_message_listener name f ls =
     (case ls name of
        None \<Rightarrow> Inr ls
      | Some fns \<Rightarrow>
          if f \<in> set fns
          then (let fns' = remove1 f fns
                in Inr (if length fns' = 0 then ls(name := None) else ls(name \<mapsto> fns')))
          else Inl (ValueError, ls))"

text \<open>
  \<open>run f typ m st\<close> is the call \<^verbatim>\<open>fn(self, typ, m)\<close>.  \<open>call_listeners\<close> is one
  \<^verbatim>\<open>for fn in ...: fn(self, typ, m)\<close> loop of \<^verbatim>\<open>mavlink_packet\<close>; there is no
  \<^verbatim>\<open>try\<close> around the call, so a raise ends the loop.  The first component of the
  result lists the callbacks that were called, in order.  Here the list is a value and the
  listener table an argument of its own: this is the dispatch for callbacks that leave the
  listener table alone.  The loop over the list object itself, which a callback can change
  while it is read, is \<open>walk_list\<close> below.
\<close>

type_synonym 'f callbacks = "'f \<Rightarrow> string \<Rightarrow> msg \<Rightarrow> link \<Rightarrow> link result"

fun call_listeners ::
  "'f callbacks \<Rightarrow> 'f list \<Rightarrow> string \<Rightarrow> msg \<Rightarrow> link \<Rightarrow> 'f list \<times> link result" where
  "call_listeners run [] typ m st = ([], Inr st)"
| "call_listeners run (f # fns) typ m st =
     (case run f typ m st of
        Inl x \<Rightarrow> ([f], Inl x)
      | Inr st' \<Rightarrow> (let (called, r) = call_listeners run fns typ m st' in (f # called, r)))"

definition get_listeners :: "'f listeners \<Rightarrow> string \<Rightarrow> 'f list" where
  "get_listeners ls k = (case ls k of None \<Rightarrow> [] | Some fns \<Rightarrow> fns)"

text \<open>
  \<^verbatim>\<open>mavlink_packet\<close>: the listeners of the message's type, then those of \<^verbatim>\<open>'*'\<close>, then
  \<^verbatim>\<open>vehicle.mavrx_callback\<close> when it is set (\<open>hook\<close>).
\<close>

definition mavlink_packet ::
  "'f callbacks \<Rightarrow> 'f listeners \<Rightarrow> (msg \<Rightarrow> link \<Rightarrow> link result) option \<Rightarrow> msg \<Rightarrow> link
     \<Rightarrow> 'f list \<times> link result" where
  "mavlink_packet run ls hook m st =
     (let typ = get_type m;
          (called1, r1) = call_listeners run (get_listeners ls typ) typ m st
      in case r1 of
           Inl x \<Rightarrow> (called1, Inl x)
         | Inr st1 \<Rightarrow>
             (let (called2, r2) = call_listeners run (get_listeners ls ''*'') typ m st1
              in case r2 of
                   Inl x \<Rightarrow> (called1 @ called2, Inl x)
                 | Inr st2 \<Rightarrow>
                     (called1 @ called2,
                      case hook of None \<Rightarrow> Inr st2 | Some h \<Rightarrow> h m st2)))"

subsection \<open>The listener table as objects\<close>

text \<open>
  The lists of \<^verbatim>\<open>message_listeners\<close> are objects.  \<^verbatim>\<open>on_message\<close> appends to the list
  object of the name (line 330) and \<^verbatim>\<open>remove_message_listener\<close> removes from it in place
  (line 338), and a callback is handed \<^verbatim>\<open>self\<close>, so it can do both while a message is
  dispatched.  The table maps a name to the address of its list object, \<open>heap\<close> holds the
  list objects and \<open>fresh\<close> is the next unused address.
\<close>

record 'f store =
  table :: "string \<rightharpoonup> nat"
  heap :: "nat \<Rightarrow> 'f list"
  fresh :: nat




text \<open>
  What a callback is handed as \<^verbatim>\<open>self\<close>: the link object and its listener table.
\<close>

type_synonym 'f self = "link \<times> 'f store"

type_synonym 'f live_callbacks = "'f \<Rightarrow> string \<Rightarrow> msg \<Rightarrow> 'f self \<Rightarrow> 'f self result"

text \<open>
  \<^verbatim>\<open>for fn in lst: fn(self, typ, m)\<close> on the list object at address \<open>a\<close>: Python reads the
  list by index and compares the index with the length the list has at that moment, so
  elements that a callback appends are visited and an element that moves below the index
  is skipped.  A raise ends the loop.  A callback that appends on every call keeps the loop
  running for ever: the value is then \<open>None\<close>.
\<close>

partial_function (option) walk_list ::
  "'f live_callbacks \<Rightarrow> nat \<Rightarrow> nat \<Rightarrow> string \<Rightarrow> msg \<Rightarrow> 'f self \<Rightarrow> 'f self result option" where
  "walk_list run a i ty m s =
     (if i < length (heap (snd s) a)
      then (case run (heap (snd s) a ! i) ty m s of
              Inl x \<Rightarrow> Some (Inl x)
            | Inr s' \<Rightarrow> walk_list run a (Suc i) ty m s')
      else Some (Inr s))"

declare walk_list.simps [code]

text \<open>
  \<^verbatim>\<open>self.message_listeners.get(key, [])\<close> is evaluated once, before the loop: the list
  object of the key, or a new empty list.
\<close>

definition for_listeners ::
  "'f live_callbacks \<Rightarrow> string \<Rightarrow> string \<Rightarrow> msg \<Rightarrow> 'f self \<Rightarrow> 'f self result option" where
  "for_listeners run key ty m s =
     (case table (snd s) key of
        None \<Rightarrow> Some (Inr s)
      | Some a \<Rightarrow> walk_list run a 0 ty m s)"

text \<open>
  \<^verbatim>\<open>mavlink_packet\<close> (lines 342-352) over the list objects: the second list is looked up
  after the first loop has run.
\<close>

definition mavlink_packet_live ::
  "'f live_callbacks \<Rightarrow> (msg \<Rightarrow> 'f self \<Rightarrow> 'f self result) option \<Rightarrow> msg \<Rightarrow> 'f self
     \<Rightarrow> 'f self result option" where
  "mavlink_packet_live run hook m s =
     (case for_listeners run (get_type m) (get_type m) m s of
        None \<Rightarrow> None
      | Some (Inl x) \<Rightarrow> Some (Inl x)
      | Some (Inr s1) \<Rightarrow>
          (case for_listeners run ''*'' (get_type m) m s1 of
             None \<Rightarrow> None
           | Some (Inl x) \<Rightarrow> Some (Inl x)
           | Some (Inr s2) \<Rightarrow> Some (case hook of None \<Rightarrow> Inr s2 | Some h \<Rightarrow> h m s2)))"

section \<open>The worker thread\<close>

text \<open>
  The local variables of \<^verbatim>\<open>mavlink_thread\<close>.  Callbacks cannot reach them, so the
  worker's state is a pair of its locals and the link object.
\<close>

record locals =
  last_new_param :: real
  last_heartbeat_sent :: real
  last_heartbeat_received :: real
  duration :: real

type_synonym worker = "locals \<times> link"

definition start_duration :: real where
  "start_duration = 2 / 10"

definition repeat_duration :: real where
  "repeat_duration = 1"

text \<open>
  How a stage of the loop can end the loop: a \<^verbatim>\<open>return\<close>, or an exception that
  reaches the handler around the whole loop.
\<close>

datatype stop = Return | Raise error

type_synonym 'a outcome = "(stop \<times> 'a) + 'a"

fun final :: "'a outcome \<Rightarrow> 'a" where
  "final (Inl (s, w)) = w"
| "final (Inr w) = w"

subsection \<open>Parameter watchdog (lines 395-410)\<close>

text \<open>
  The \<^verbatim>\<open>for i, v in enumerate(params.mav_param_set)\<close> loop: \<open>i\<close> is the index of the
  slot at the head and \<open>c\<close> the counter.  The counter is incremented after the send and
  the loop is left once \<^verbatim>\<open>c > 50\<close>.
\<close>

fun request_missing :: "nat \<Rightarrow> nat \<Rightarrow> nat \<Rightarrow> nat \<Rightarrow> msg option list \<Rightarrow> packet list" where
  "request_missing ts tc i c [] = []"
| "request_missing ts tc i c (v # vs) =
     (if v = None
      then Param_request_read_send ts tc [] i #
             (if c + 1 > 50 then [] else request_missing ts tc (i + 1) (c + 1) vs)
      else request_missing ts tc (i + 1) c vs)"

text \<open>
  The watchdog step.  \<open>watchdog_fires\<close> names the condition under which lines 402-410
  run: the set has started, is not marked loaded, has an unknown slot (else line 399
  marks it loaded first) and the last new value is older than the duration.
\<close>

definition watchdog_fires :: "real \<Rightarrow> worker \<Rightarrow> bool" where
  "watchdog_fires now = (\<lambda>(v, st).
     start (params st) \<and> None \<in> set (mav_param_set (params st)) \<and> \<not> loaded (params st)
       \<and> now - last_new_param v > duration v)"

definition param_watchdog :: "real \<Rightarrow> worker \<Rightarrow> worker" where
  "param_watchdog now = (\<lambda>(v, st).
     if start (params st)
     then (let st1 = (if None \<notin> set (mav_param_set (params st))
                      then st\<lparr>params := (params st)\<lparr>loaded := True\<rparr>\<rparr> else st)
           in if \<not> loaded (params st1) \<and> now - last_new_param v > duration v
              then (v\<lparr>duration := repeat_duration, last_new_param := now\<rparr>,
                    st1\<lparr>out_queue := out_queue st1 @
                       request_missing (master_target_system st1) (master_target_component st1)
                         0 0 (mav_param_set (params st1))\<rparr>)
              else (v, st1))
     else (v, st))"

subsection \<open>Heartbeat (lines 414-425)\<close>

definition heartbeat_step :: "real \<Rightarrow> bool \<Rightarrow> worker \<Rightarrow> worker" where
  "heartbeat_step now heartbeat_started = (\<lambda>(v, st).
     let (v1, st1) = (if now - last_heartbeat_sent v > 1
                      then (v\<lparr>last_heartbeat_sent := now\<rparr>,
                            st\<lparr>out_queue := out_queue st @ [Heartbeat_send]\<rparr>)
                      else (v, st));
         v2 = (if heartbeat_started
               then (if last_heartbeat_received v1 = 0 then v1\<lparr>last_heartbeat_received := now\<rparr>
                     else if now - last_heartbeat_received v1 > 5
                          then v1\<lparr>last_heartbeat_received := now\<rparr> else v1)
               else v1)
     in (v2, st1))"

subsection \<open>Outbound queue (lines 427-447)\<close>

text \<open>
  What \<^verbatim>\<open>master.write\<close> or \<^verbatim>\<open>master.recv_msg\<close> can do besides succeeding: raise
  \<^verbatim>\<open>socket.error\<close> with \<^verbatim>\<open>ECONNABORTED\<close>, raise another \<^verbatim>\<open>socket.error\<close>, or raise
  something else.  On \<^verbatim>\<open>ECONNABORTED\<close> the connection is closed and opened again at
  the same address.  Modelled from the spec: the connection class is the codec
  library's and not in the source; the target ids are retained across the reconnection.
\<close>

datatype io = Io_ok | Io_aborted | Io_fatal | Io_failed

definition reconnect :: "link \<Rightarrow> link" where
  "reconnect st = st\<lparr>master_closed := False\<rparr>"

text \<open>
  \<open>ios\<close> lists the outcomes of the successive \<^verbatim>\<open>master.write\<close> calls (a call past
  the end of the list succeeds).  The first argument is the queue still to pop.
\<close>

fun drain_queue :: "packet list \<Rightarrow> io list \<Rightarrow> link \<Rightarrow> link outcome" where
  "drain_queue [] ios st = Inr st"
| "drain_queue (pkt # q) ios st =
     (case (case ios of [] \<Rightarrow> Io_ok | x # xs \<Rightarrow> x) of
        Io_ok \<Rightarrow> drain_queue q (tl ios) (st\<lparr>out_queue := q, wire := wire st @ [pkt]\<rparr>)
      | Io_aborted \<Rightarrow> drain_queue q (tl ios) (reconnect (st\<lparr>out_queue := q\<rparr>))
      | Io_fatal \<Rightarrow> Inl (Return, st\<lparr>out_queue := q\<rparr>)
      | Io_failed \<Rightarrow> Inr (st\<lparr>out_queue := q\<rparr>))"

definition drain_out :: "io list \<Rightarrow> link \<Rightarrow> link outcome" where
  "drain_out ios st = drain_queue (out_queue st) ios st"

subsection \<open>Inbound messages (lines 471-530)\<close>

text \<open>
  The parameter path.  The body of the \<^verbatim>\<open>try\<close> raises \<^verbatim>\<open>IndexError\<close> when the index is
  below the announced count but outside the list; the handler prints a traceback and the
  rest of the \<^verbatim>\<open>try\<close> body, the store into \<^verbatim>\<open>mav_param\<close> included, is skipped.
\<close>

definition param_value_rx :: "real \<Rightarrow> msg \<Rightarrow> worker \<Rightarrow> worker" where
  "param_value_rx now m = (\<lambda>(v, st).
     case m of
       PARAM_VALUE pid pval idx cnt \<Rightarrow>
         (let p1 = (if mav_param_count (params st) \<noteq> int cnt
                    then (params st)\<lparr>loaded := False, start := True,
                           mav_param_count := int cnt, mav_param_set := replicate cnt None\<rparr>
                    else params st)
          in if idx < cnt
             then (if idx < length (mav_param_set p1)
                   then ((if mav_param_set p1 ! idx = None
                          then v\<lparr>last_new_param := now, duration := start_duration\<rparr> else v),
                         st\<lparr>params := p1\<lparr>mav_param_set := (mav_param_set p1)[idx := Some m]\<rparr>,
                            mav_param := (mav_param st)(pid \<mapsto> pval)\<rparr>)
                   else (v, st\<lparr>params := p1\<rparr>))
             else (v, st\<lparr>params := p1, mav_param := (mav_param st)(pid \<mapsto> pval)\<rparr>))
     | _ \<Rightarrow> (v, st))"

text \<open>The mission download path (lines 496-514).\<close>

definition waypoint_count_rx :: "nat \<Rightarrow> link \<Rightarrow> link" where
  "waypoint_count_rx n st =
     st\<lparr>wploader := \<lparr>wpoints = [], expected_count = n\<rparr>,
        out_queue := out_queue st @ [Waypoint_request_send 0]\<rparr>"

definition waypoint_item_rx :: "waypoint \<Rightarrow> link \<Rightarrow> link" where
  "waypoint_item_rx w st =
     (if seq w > length (wpoints (wploader st)) then st
      else if seq w < length (wpoints (wploader st)) then st
      else (let st1 = st\<lparr>wploader := (wploader st)\<lparr>wpoints := wpoints (wploader st) @ [w]\<rparr>\<rparr>
            in if seq w + 1 < expected_count (wploader st1)
               then st1\<lparr>out_queue := out_queue st1 @ [Waypoint_request_send (seq w + 1)]\<rparr>
               else st1\<lparr>wp_loaded := True\<rparr>))"

definition waypoint_rx :: "msg \<Rightarrow> link \<Rightarrow> link" where
  "waypoint_rx m st =
     (if \<not> wp_loaded st
      then (case m of
              WAYPOINT_COUNT n \<Rightarrow> waypoint_count_rx n st
            | MISSION_COUNT n \<Rightarrow> waypoint_count_rx n st
            | WAYPOINT w \<Rightarrow> waypoint_item_rx w st
            | MISSION_ITEM w \<Rightarrow> waypoint_item_rx w st
            | _ \<Rightarrow> st)
      else st)"

definition waypoint_current_rx :: "msg \<Rightarrow> link \<Rightarrow> link" where
  "waypoint_current_rx m st =
     (case m of
        WAYPOINT_CURRENT s \<Rightarrow> st\<lparr>last_waypoint := s\<rparr>
      | MISSION_CURRENT s \<Rightarrow> st\<lparr>last_waypoint := s\<rparr>
      | _ \<Rightarrow> st)"

text \<open>
  The mission upload path (lines 519-524).  Reading a waypoint that is not in the list
  raises, and so does the store into \<^verbatim>\<open>wp_uploaded\<close> past its end (after the waypoint
  has been rewritten and sent).
\<close>

definition waypoint_request_rx :: "nat \<Rightarrow> bool list \<Rightarrow> link \<Rightarrow> link result" where
  "waypoint_request_rx s up st =
     (if s < length (wpoints (wploader st))
      then (let wp = (wpoints (wploader st) ! s)
                       \<lparr>wp_target_system := target_system st,
                        wp_target_component := target_component st\<rparr>;
                st1 = st\<lparr>wploader := (wploader st)\<lparr>wpoints := (wpoints (wploader st))[s := wp]\<rparr>,
                         out_queue := out_queue st @ [Mav_send wp]\<rparr>
            in if s < length up then Inr (st1\<lparr>wp_uploaded := Some (up[s := True])\<rparr>)
               else Inl (IndexError, st1))
      else Inl (IndexError, st))"

definition upload_rx :: "msg \<Rightarrow> link \<Rightarrow> link result" where
  "upload_rx m st =
     (case wp_uploaded st of
        None \<Rightarrow> Inr st
      | Some up \<Rightarrow>
          (case m of
             WAYPOINT_REQUEST s \<Rightarrow> waypoint_request_rx s up st
           | MISSION_REQUEST s \<Rightarrow> waypoint_request_rx s up st
           | _ \<Rightarrow> Inr st))"

text \<open>
  One received message: the parameter path, the download path, the current-waypoint
  update, the upload path, the heartbeat clock and the user dispatch, in the source's
  order.  \<open>now\<close> is the reading of \<^verbatim>\<open>time.time()\<close> while the message is handled.
\<close>

definition process_msg ::
  "'f callbacks \<Rightarrow> 'f listeners \<Rightarrow> (msg \<Rightarrow> link \<Rightarrow> link result) option \<Rightarrow> real \<Rightarrow> msg
     \<Rightarrow> worker \<Rightarrow> worker outcome" where
  "process_msg run ls hook now m w =
     (let (v1, st1) = param_value_rx now m w;
          st2 = waypoint_rx m st1;
          st3 = waypoint_current_rx m st2
      in case upload_rx m st3 of
           Inl (e, st4) \<Rightarrow> Inl (Raise e, (v1, st4))
         | Inr st4 \<Rightarrow>
             (let v2 = (if get_type m = ''HEARTBEAT''
                        then v1\<lparr>last_heartbeat_received := now\<rparr> else v1)
              in case snd (mavlink_packet run ls hook m st4) of
                   Inl (e, st5) \<Rightarrow> Inl (Raise e, (v2, st5))
                 | Inr st5 \<Rightarrow> Inr (v2, st5)))"

text \<open>
  The receive loop.  The list holds what the successive \<^verbatim>\<open>master.recv_msg\<close> calls of one
  pass do before one returns no message (the end of the list): a message, read at the
  given time, or a \<^verbatim>\<open>socket.error\<close>.
\<close>

datatype recv = Recv_msg real msg | Recv_aborted | Recv_fatal

fun recv_loop ::
  "'f callbacks \<Rightarrow> 'f listeners \<Rightarrow> (msg \<Rightarrow> link \<Rightarrow> link result) option \<Rightarrow> recv list
     \<Rightarrow> worker \<Rightarrow> worker outcome" where
  "recv_loop run ls hook [] w = Inr w"
| "recv_loop run ls hook (Recv_msg now m # rs) w =
     (case process_msg run ls hook now m w of
        Inl x \<Rightarrow> Inl x
      | Inr w' \<Rightarrow> recv_loop run ls hook rs w')"
| "recv_loop run ls hook (Recv_aborted # rs) w =
     recv_loop run ls hook rs (fst w, reconnect (snd w))"
| "recv_loop run ls hook (Recv_fatal # rs) w = Inl (Return, w)"

subsection \<open>Calls from other threads\<close>

definition fetch :: "link \<Rightarrow> link" where
  "fetch st = st\<lparr>wp_loaded := False, out_queue := out_queue st @ [Waypoint_request_list_send]\<rparr>"

text \<open>\<^verbatim>\<open>MavWriter.write\<close>: a message sent through \<^verbatim>\<open>master.mav\<close> is put on the queue.\<close>

definition mav_writer_put :: "packet \<Rightarrow> link \<Rightarrow> link" where
  "mav_writer_put pkt st = st\<lparr>out_queue := out_queue st @ [pkt]\<rparr>"

datatype user_call = Call_fetch | Call_send packet

fun do_call :: "user_call \<Rightarrow> link \<Rightarrow> link" where
  "do_call Call_fetch st = fetch st"
| "do_call (Call_send pkt) st = mav_writer_put pkt st"

subsection \<open>The loop\<close>

text \<open>
  What one pass of \<^verbatim>\<open>while True\<close> meets: the calls other threads made during the
  \<^verbatim>\<open>sleep\<close>, the clock at the top of the pass, whether \<^verbatim>\<open>prepare\<close> has seen the first
  heartbeat, the outcomes of the transport writes and what is received.  The watchdog
  and heartbeat steps of a pass use one reading of the clock (the source reads it
  several times in a row); every received message has a reading of its own.
\<close>

record pass =
  calls :: "user_call list"
  clock :: real
  heartbeat_started :: bool
  master_writes :: "io list"
  recvs :: "recv list"

definition loop_body ::
  "'f callbacks \<Rightarrow> 'f listeners \<Rightarrow> (msg \<Rightarrow> link \<Rightarrow> link result) option \<Rightarrow> pass
     \<Rightarrow> worker \<Rightarrow> worker outcome" where
  "loop_body run ls hook p w =
     (let w0 = (fst w, fold do_call (calls p) (snd w));
          (v1, st1) = heartbeat_step (clock p) (heartbeat_started p) (param_watchdog (clock p) w0)
      in case drain_out (master_writes p) st1 of
           Inl (s, st2) \<Rightarrow> Inl (s, (v1, st2))
         | Inr st2 \<Rightarrow> recv_loop run ls hook (recvs p) (v1, st2))"

fun thread_loop ::
  "'f callbacks \<Rightarrow> 'f listeners \<Rightarrow> (msg \<Rightarrow> link \<Rightarrow> link result) option \<Rightarrow> pass list
     \<Rightarrow> worker \<Rightarrow> worker outcome" where
  "thread_loop run ls hook [] w = Inr w"
| "thread_loop run ls hook (p # ps) w =
     (case loop_body run ls hook p w of
        Inl x \<Rightarrow> Inl x
      | Inr w' \<Rightarrow> thread_loop run ls hook ps w')"

text \<open>
  \<^verbatim>\<open>mavlink_thread\<close> on a finite prefix of its passes.  \<open>t0\<close> is the clock when the
  thread starts.  The handler around the loop drops an exception when \<^verbatim>\<open>exiting\<close> is
  set and raises it again otherwise; in both cases the loop is over.  \<open>Inr\<close> means the
  loop is still running after the given passes.
\<close>

definition thread_locals :: "real \<Rightarrow> locals" where
  "thread_locals t0 = \<lparr>last_new_param = t0, last_heartbeat_sent = 0,
                        last_heartbeat_received = 0, duration = start_duration\<rparr>"

definition mavlink_thread ::
  "'f callbacks \<Rightarrow> 'f listeners \<Rightarrow> (msg \<Rightarrow> link \<Rightarrow> link result) option \<Rightarrow> real \<Rightarrow> pass list
     \<Rightarrow> link \<Rightarrow> worker outcome" where
  "mavlink_thread run ls hook t0 ps st =
     (case thread_loop run ls hook ps (thread_locals t0, st) of
        Inl (Raise e, w) \<Rightarrow> if exiting (snd w) then Inl (Return, w) else Inl (Raise e, w)
      | r \<Rightarrow> r)"

text \<open>The link object as \<^verbatim>\<open>__init__\<close> and \<^verbatim>\<open>prepare\<close> leave it before the thread starts.\<close>

definition new_link :: link where
  "new_link = \<lparr>out_queue = [], wire = [], target_system = 0, target_component = 0,
     master_target_system = 0, master_target_component = 0, master_closed = False,
     mav_param = Map.empty, wploader = \<lparr>wpoints = [], expected_count = 0\<rparr>,
     wp_loaded = True, wp_uploaded = None, last_waypoint = 0, armed = False, ekf_ok = False,
     mount_pitch = None, mount_yaw = None, mount_roll = None, notified = [],
     params = \<lparr>mav_param_count = - 1, mav_param_set = [], loaded = False, start = False\<rparr>,
     exiting = False\<rparr>"

subsection \<open>\<^verbatim>\<open>close\<close> (lines 576-581)\<close>

text \<open>
  \<^verbatim>\<open>close\<close> runs on the caller's thread: it sets \<^verbatim>\<open>exiting\<close>, polls the queue with a
  \<^verbatim>\<open>sleep(0.1)\<close> between two polls, and closes the connection once the queue is empty.
  \<open>world\<close> is what the rest of the process (the worker, other callers) does to the
  state during one sleep.  The loop has no bound of its own, so \<open>None\<close> stands for a
  call that never returns.
\<close>

partial_function (option) close_wait :: "(worker \<Rightarrow> worker) \<Rightarrow> worker \<Rightarrow> worker option" where
  "close_wait world w =
     (if out_queue (snd w) = [] then Some w else close_wait world (world w))"

definition close :: "(worker \<Rightarrow> worker) \<Rightarrow> worker \<Rightarrow> worker option" where
  "close world w =
     (case close_wait world (fst w, (snd w)\<lparr>exiting := True\<rparr>) of
        None \<Rightarrow> None
      | Some w' \<Rightarrow> Some (fst w', (snd w')\<lparr>master_closed := True\<rparr>))"

subsection \<open>Vocabulary of the properties\<close>

text \<open>
  \<open>frame sel run hook\<close>: no callback and not the raw hook changes the part \<open>sel\<close> of
  the link object, whether it returns or raises.
\<close>

definition frame ::
  "(link \<Rightarrow> 'a) \<Rightarrow> 'f callbacks \<Rightarrow> (msg \<Rightarrow> link \<Rightarrow> link result) option \<Rightarrow> bool" where
  "frame sel run hook =
     ((\<forall>f ty m st. sel (after (run f ty m st)) = sel st)
      \<and> (case hook of None \<Rightarrow> True | Some h \<Rightarrow> \<forall>m st. sel (after (h m st)) = sel st))"

text \<open>The messages a list of passes receives, in order.\<close>

fun received_of :: "recv list \<Rightarrow> msg list" where
  "received_of [] = []"
| "received_of (Recv_msg t m # rs) = m # received_of rs"
| "received_of (r # rs) = received_of rs"

definition received :: "pass list \<Rightarrow> msg list" where
  "received ps = concat (map (\<lambda>p. received_of (recvs p)) ps)"

text \<open>The slots of the parameter sequence are as many as the stored count says.\<close>

definition slots_match :: "pstate \<Rightarrow> bool" where
  "slots_match p = (mav_param_count p < 0 \<or> int (length (mav_param_set p)) = mav_param_count p)"

text \<open>
  The link object after the stages of one message that come before the user dispatch
  (lines 471-524).
\<close>

definition before_dispatch :: "real \<Rightarrow> msg \<Rightarrow> worker \<Rightarrow> link result" where
  "before_dispatch now m w =
     upload_rx m (waypoint_current_rx m (waypoint_rx m (snd (param_value_rx now m w))))"

text \<open>\<open>loaded\<close> is set only for a started set without an unknown slot.\<close>

definition loaded_sound :: "pstate \<Rightarrow> bool" where
  "loaded_sound p = (\<not> loaded p \<or> (start p \<and> None \<notin> set (mav_param_set p)))"

text \<open>What one received message does to the keyed mapping when it is stored.\<close>

fun store_param :: "msg \<Rightarrow> (string \<rightharpoonup> real) \<Rightarrow> (string \<rightharpoonup> real)" where
  "store_param (PARAM_VALUE pid pval idx cnt) mp = mp(pid \<mapsto> pval)"
| "store_param m mp = mp"

text \<open>The received waypoints carry the sequence numbers 0, 1, ... in order.\<close>

definition gap_free :: "waypoint list \<Rightarrow> bool" where
  "gap_free ws = (map seq ws = [0..<length ws])"


definition view :: "'f store \<Rightarrow> 'f listeners" where
  "view s name = map_option (heap s) (table s name)"


definition lift :: "'f callbacks \<Rightarrow> 'f live_callbacks" where
  "lift run g ty m s =
     (case run g ty m (fst s) of
        Inl (e, st) \<Rightarrow> Inl (e, (st, snd s))
      | Inr st \<Rightarrow> Inr (st, snd s))"

subsection \<open>Concrete inputs\<close>

text \<open>
  The values of the three flags in the \<^verbatim>\<open>ardupilotmega\<close> dialect
  (\<^verbatim>\<open>EKF_STATUS_FLAGS\<close>), and callbacks that return without touching the link.
\<close>

definition ardupilotmega_v10 :: ardupilotmega where
  "ardupilotmega_v10 =
     \<lparr>EKF_POS_HORIZ_ABS = 16, EKF_CONST_POS_MODE = 128, EKF_PRED_POS_HORIZ_ABS = 512\<rparr>"

definition quiet :: "nat callbacks" where
  "quiet f typ m st = Inr st"

text \<open>
  A parameter set of 60 is announced by its first value at time 0 and nothing else
  arrives; the next pass is one second later.
\<close>

definition first_of_60 :: pass where
  "first_of_60 = \<lparr>calls = [], clock = 0, heartbeat_started = True, master_writes = [],
                   recvs = [Recv_msg 0 (PARAM_VALUE ''A'' 1 0 60)]\<rparr>"

definition idle_at :: "real \<Rightarrow> pass" where
  "idle_at t = \<lparr>calls = [], clock = t, heartbeat_started = True, master_writes = [],
                 recvs = []\<rparr>"

text \<open>A set of 3: value 0 arrives at time 0, value 1 one second later.\<close>

definition first_of_3 :: pass where
  "first_of_3 = \<lparr>calls = [], clock = 0, heartbeat_started = True, master_writes = [],
                  recvs = [Recv_msg 0 (PARAM_VALUE ''A'' 1 0 3)]\<rparr>"

definition second_of_3 :: pass where
  "second_of_3 = \<lparr>calls = [], clock = 1, heartbeat_started = True, master_writes = [],
                   recvs = [Recv_msg 1 (PARAM_VALUE ''B'' 2 1 3)]\<rparr>"

text \<open>A set of 1 whose only value arrives.\<close>

definition only_of_1 :: pass where
  "only_of_1 = \<lparr>calls = [], clock = 0, heartbeat_started = True, master_writes = [],
                 recvs = [Recv_msg 0 (PARAM_VALUE ''A'' 1 0 1)]\<rparr>"

text \<open>A set of 3 whose value 0 is known; nothing new since time 0.\<close>

definition one_of_3 :: worker where
  "one_of_3 = (thread_locals 0,
     new_link\<lparr>params := \<lparr>mav_param_count = 3,
       mav_param_set = [Some (PARAM_VALUE ''A'' 1 0 3), None, None],
       loaded = False, start = True\<rparr>\<rparr>)"

text \<open>The value of \<^verbatim>\<open>A\<close> arrives again, changed.\<close>

definition again_A :: pass where
  "again_A = \<lparr>calls = [], clock = 2, heartbeat_started = True, master_writes = [],
               recvs = [Recv_msg 2 (PARAM_VALUE ''A'' 5 0 3)]\<rparr>"

text \<open>
  A download of two waypoints: \<^verbatim>\<open>fetch\<close> is called, the count arrives, then waypoint 0,
  waypoint 0 again, waypoint 3 (too far ahead) and waypoint 1.
\<close>

definition download_2 :: pass where
  "download_2 = \<lparr>calls = [Call_fetch], clock = 0, heartbeat_started = True, master_writes = [],
     recvs = [Recv_msg 0 (MISSION_COUNT 2),
              Recv_msg 0 (MISSION_ITEM \<lparr>seq = 0, wp_target_system = 1, wp_target_component = 1, wp_command = 22\<rparr>),
              Recv_msg 0 (MISSION_ITEM \<lparr>seq = 0, wp_target_system = 1, wp_target_component = 1, wp_command = 22\<rparr>),
              Recv_msg 0 (MISSION_ITEM \<lparr>seq = 3, wp_target_system = 1, wp_target_component = 1, wp_command = 16\<rparr>),
              Recv_msg 0 (MISSION_ITEM \<lparr>seq = 1, wp_target_system = 1, wp_target_component = 1, wp_command = 21\<rparr>)]\<rparr>"

text \<open>
  Callback 0 raises; every other callback records that it was called.  Callbacks 0 and 1
  are registered for \<^verbatim>\<open>HEARTBEAT\<close>, callback 2 for the wildcard.
\<close>

definition faulty :: "nat callbacks" where
  "faulty f ty m st =
     (if f = 0 then Inl (Exception ''listener failed'', st)
      else Inr (st\<lparr>notified := notified st @ [''called'']\<rparr>))"

definition three_listeners :: "nat listeners" where
  "three_listeners =
     on_message ''*'' 2 (on_message ''HEARTBEAT'' 1 (on_message ''HEARTBEAT'' 0 Map.empty))"

definition heartbeat_then_current :: pass where
  "heartbeat_then_current = \<lparr>calls = [], clock = 0, heartbeat_started = True,
     master_writes = [], recvs = [Recv_msg 0 HEARTBEAT, Recv_msg 0 (MISSION_CURRENT 3)]\<rparr>"

text \<open>
  Two messages are queued and the first transport write fails for good, so the worker
  returns with the second message still queued.
\<close>

definition fatal_send :: pass where
  "fatal_send = \<lparr>calls = [Call_send Waypoint_clear_all_send, Call_send (Waypoint_count_send 2)],
     clock = 0, heartbeat_started = True, master_writes = [Io_fatal], recvs = []\<rparr>"

text \<open>A worker that is alive makes one pass during a sleep of \<^verbatim>\<open>close\<close>.\<close>

definition alive_worker :: "worker \<Rightarrow> worker" where
  "alive_worker w = final (loop_body quiet Map.empty None (idle_at 1) w)"

definition queued :: worker where
  "queued = (thread_locals 0, new_link\<lparr>out_queue := [Waypoint_clear_all_send]\<rparr>)"



section \<open>Properties\<close>

subsection \<open>Default listeners\<close>

lemma word_pos_iff: "(0 < (x :: 16 word)) = (x \<noteq> 0)"
  by (simp add: word_gt_0)

text \<open>
  C7.  On \<^verbatim>\<open>EKF_STATUS_REPORT\<close> the listener sets \<open>ekf_ok\<close> to "abs and not const" when
  the vehicle is armed and to "abs or pred" otherwise, each flag test read as a boolean
  (the masked value is not zero).  Disarmed with only the predicted-position flag set,
  \<open>ekf_ok\<close> is true; armed with the absolute-position and the constant-position flags
  set, it is false.
\<close>

theorem ekf_status_report_predicate:
  "ekf_status_report_listener c (EKF_STATUS_REPORT fl) st =
     Inr (st\<lparr>ekf_ok := (if armed st
                         then (fl AND EKF_POS_HORIZ_ABS c \<noteq> 0)
                              \<and> \<not> (fl AND EKF_CONST_POS_MODE c \<noteq> 0)
                         else (fl AND EKF_POS_HORIZ_ABS c \<noteq> 0)
                              \<or> (fl AND EKF_PRED_POS_HORIZ_ABS c \<noteq> 0)),
             notified := notified st @ [''ekf_ok'']\<rparr>)
   \<and> (\<not> armed st \<longrightarrow> EKF_PRED_POS_HORIZ_ABS c \<noteq> 0 \<longrightarrow>
        ekf_ok (after (ekf_status_report_listener c
          (EKF_STATUS_REPORT (EKF_PRED_POS_HORIZ_ABS c)) st)))
   \<and> (armed st \<longrightarrow> EKF_CONST_POS_MODE c \<noteq> 0 \<longrightarrow>
        \<not> ekf_ok (after (ekf_status_report_listener c
             (EKF_STATUS_REPORT (EKF_POS_HORIZ_ABS c OR EKF_CONST_POS_MODE c)) st)))"
  by (simp add: notify_attribute_listeners_def word_pos_iff Let_def)

theorem ekf_status_report_predicate_witness:
  "\<not> armed new_link \<and> EKF_PRED_POS_HORIZ_ABS ardupilotmega_v10 \<noteq> 0
   \<and> ekf_ok (after (ekf_status_report_listener ardupilotmega_v10
        (EKF_STATUS_REPORT (EKF_PRED_POS_HORIZ_ABS ardupilotmega_v10)) new_link)) = True
   \<and> armed (new_link\<lparr>armed := True\<rparr>) \<and> EKF_CONST_POS_MODE ardupilotmega_v10 \<noteq> 0
   \<and> ekf_ok (after (ekf_status_report_listener ardupilotmega_v10
        (EKF_STATUS_REPORT 144) (new_link\<lparr>armed := True\<rparr>))) = False"
  using ekf_status_report_predicate [of ardupilotmega_v10 512 new_link]
    ekf_status_report_predicate [of ardupilotmega_v10 144 "new_link\<lparr>armed := True\<rparr>"]
  by (simp add: ardupilotmega_v10_def new_link_def)

text \<open>
  C8.  On \<^verbatim>\<open>MOUNT_STATUS\<close> the listener stores \<^verbatim>\<open>pointing_a / 100\<close>, and the division is
  Python 2's floor division of two integers: \<open>pointing_a = 150\<close> gives \<open>mount_pitch = 1\<close>,
  not 1.5.  The \<^verbatim>\<open>GLOBAL_POSITION_INT\<close> listener of the same file divides by the float
  literals \<^verbatim>\<open>100.0\<close> and \<^verbatim>\<open>1.0e7\<close>.
\<close>

theorem mount_status_floor_division:
  "mount_status_listener (MOUNT_STATUS a b c) st =
     Inr (st\<lparr>mount_pitch := Some (a div 100), mount_roll := Some (b div 100),
             mount_yaw := Some (c div 100), notified := notified st @ [''mount'']\<rparr>)
   \<and> mount_pitch (after (mount_status_listener (MOUNT_STATUS 150 b c) st)) = Some 1
   \<and> real_of_int (150 div 100) \<noteq> 150 / 100"
  by (simp add: notify_attribute_listeners_def)

subsection \<open>Registration of message listeners\<close>



lemma on_message_twice: "on_message n f (on_message n f ls) = on_message n f ls"
  by (auto simp: on_message_def Let_def split: option.splits)











lemma get_listeners_view:
  "get_listeners (view s) k = (case table s k of None \<Rightarrow> [] | Some a \<Rightarrow> heap s a)"
  by (simp add: get_listeners_def view_def split: option.splits)





lemma walk_list_lift:
  "walk_list (lift run) a i ty m (st, s) =
     Some (case snd (call_listeners run (drop i (heap s a)) ty m st) of
             Inl (e, st') \<Rightarrow> Inl (e, (st', s))
           | Inr st' \<Rightarrow> Inr (st', s))"
proof (induction "length (heap s a) - i" arbitrary: i st)
  case 0
  then show ?case by (subst walk_list.simps) simp
next
  case (Suc k)
  then have lt: "i < length (heap s a)" by simp
  let ?g = "heap s a ! i"
  have d: "drop i (heap s a) = ?g # drop (Suc i) (heap s a)"
    using lt by (simp add: Cons_nth_drop_Suc)
  show ?case
  proof (cases "run ?g ty m st")
    case (Inl x)
    then show ?thesis using lt d
      by (subst walk_list.simps) (cases x, simp add: lift_def)
  next
    case (Inr st')
    have "k = length (heap s a) - Suc i" using Suc.hyps(2) by simp
    then have "walk_list (lift run) a (Suc i) ty m (st', s) =
                 Some (case snd (call_listeners run (drop (Suc i) (heap s a)) ty m st') of
                         Inl (e, st') \<Rightarrow> Inl (e, (st', s))
                       | Inr st' \<Rightarrow> Inr (st', s))"
      by (rule Suc.hyps(1))
    then show ?thesis using lt d Inr
      by (subst walk_list.simps) (simp add: lift_def split_beta)
  qed
qed

lemma for_listeners_lift:
  "for_listeners (lift run) key ty m (st, s) =
     Some (case snd (call_listeners run (get_listeners (view s) key) ty m st) of
             Inl (e, st') \<Rightarrow> Inl (e, (st', s))
           | Inr st' \<Rightarrow> Inr (st', s))"
  by (cases "table s key") (simp_all add: for_listeners_def get_listeners_view walk_list_lift)

text \<open>
  For callbacks that leave the listener table alone, the walk over the live list objects
  is the walk of \<open>call_listeners\<close> over the lists as they are when the dispatch starts.
\<close>

lemma mavlink_packet_live_lift:
  "mavlink_packet_live (lift run) None m (st, s) =
     Some (case snd (mavlink_packet run (view s) None m st) of
             Inl (e, st') \<Rightarrow> Inl (e, (st', s))
           | Inr st' \<Rightarrow> Inr (st', s))"
  by (auto simp: mavlink_packet_live_def mavlink_packet_def for_listeners_lift Let_def
      split: sum.splits prod.splits)




subsection \<open>Parameter watchdog\<close>

lemma request_missing_length:
  "c \<le> 50 \<Longrightarrow> length (request_missing ts tc i c vs) = min (51 - c) (count_list vs None)"
  by (induction vs arbitrary: i c) auto

text \<open>
  C4.  One firing of the watchdog sends a request, with empty \<open>param_id\<close> and by index,
  for the first unknown slots, but the counter is compared with \<^verbatim>\<open>c > 50\<close> after it has
  been incremented: with 51 or more unknown slots 51 requests are sent, not at most 50.
  A set of 60 of which only value 0 has arrived gets requests for the indices 1 to 51.
\<close>

theorem param_watchdog_sends_51:
  "length (request_missing ts tc 0 0 vs) = min 51 (count_list vs None)
   \<and> wire (snd (final (mavlink_thread quiet Map.empty None 0 [first_of_60, idle_at 1] new_link)))
       = map (Param_request_read_send 0 0 []) [1..<52]
   \<and> length (wire (snd (final
        (mavlink_thread quiet Map.empty None 0 [first_of_60, idle_at 1] new_link)))) = 51"
proof -
  have a: "length (request_missing ts tc 0 0 vs) = min 51 (count_list vs None)"
    using request_missing_length [of 0 ts tc 0 vs] by simp
  have b: "wire (snd (final
             (mavlink_thread quiet Map.empty None 0 [first_of_60, idle_at 1] new_link)))
       = map (Param_request_read_send 0 0 []) [1..<52]"
    by code_simp
  show ?thesis using a b by simp
qed

subsection \<open>Callbacks that leave a part of the link alone\<close>

lemma call_listeners_frame:
  assumes "\<And>f ty m st. sel (after (run f ty m st)) = sel st"
  shows "sel (after (snd (call_listeners run fns ty m st))) = sel st"
proof (induction fns arbitrary: st)
  case Nil
  show ?case by simp
next
  case (Cons f fns)
  show ?case
  proof (cases "run f ty m st")
    case (Inl x)
    then show ?thesis using assms [of f ty m st] by (cases x) simp
  next
    case (Inr st')
    then show ?thesis using assms [of f ty m st] Cons.IH [of st']
      by (simp add: split_beta)
  qed
qed

lemma mavlink_packet_frame:
  assumes "frame sel run hook"
  shows "sel (after (snd (mavlink_packet run ls hook m st))) = sel st"
proof -
  have r: "\<And>f ty m st. sel (after (run f ty m st)) = sel st"
    using assms by (simp add: frame_def)
  let ?ty = "get_type m"
  obtain c1 r1 where a: "call_listeners run (get_listeners ls ?ty) ?ty m st = (c1, r1)"
    by (cases "call_listeners run (get_listeners ls ?ty) ?ty m st")
  have a': "sel (after r1) = sel st"
    using call_listeners_frame [of sel run "get_listeners ls ?ty" ?ty m st, OF r] a by simp
  show ?thesis
  proof (cases r1)
    case (Inl x)
    then show ?thesis using a a' by (simp add: mavlink_packet_def)
  next
    case (Inr st1)
    obtain c2 r2 where b: "call_listeners run (get_listeners ls ''*'') ?ty m st1 = (c2, r2)"
      by (cases "call_listeners run (get_listeners ls ''*'') ?ty m st1")
    have b': "sel (after r2) = sel st1"
      using call_listeners_frame [of sel run "get_listeners ls ''*''" ?ty m st1, OF r] b by simp
    show ?thesis
    proof (cases r2)
      case (Inl x)
      then show ?thesis using a a' b b' Inr by (simp add: mavlink_packet_def)
    next
      case (Inr st2)
      then show ?thesis using a a' b b' \<open>r1 = Inr st1\<close> assms
        by (cases hook) (simp_all add: mavlink_packet_def frame_def)
    qed
  qed
qed

lemma process_msg_frame:
  assumes "frame sel run hook"
  shows "sel (snd (final (process_msg run ls hook now m w))) = sel (after (before_dispatch now m w))"
proof -
  obtain v1 st1 where p: "param_value_rx now m w = (v1, st1)"
    by (cases "param_value_rx now m w")
  show ?thesis
  proof (cases "upload_rx m (waypoint_current_rx m (waypoint_rx m st1))")
    case (Inl x)
    then show ?thesis using p by (cases x) (simp add: process_msg_def before_dispatch_def)
  next
    case (Inr st4)
    show ?thesis
    proof (cases "snd (mavlink_packet run ls hook m st4)")
      case (Inl x)
      then show ?thesis
        using p Inr mavlink_packet_frame [OF assms, of ls m st4]
        by (cases x) (simp add: process_msg_def before_dispatch_def Let_def)
    next
      case (Inr st5)
      then show ?thesis
        using p \<open>upload_rx m (waypoint_current_rx m (waypoint_rx m st1)) = Inr st4\<close>
          mavlink_packet_frame [OF assms, of ls m st4]
        by (simp add: process_msg_def before_dispatch_def Let_def)
    qed
  qed
qed

lemma process_msg_duration:
  "duration (fst (final (process_msg run ls hook now m w))) = duration (fst (param_value_rx now m w))"
  by (auto simp: process_msg_def Let_def split: prod.splits sum.splits)

lemma params_before_dispatch:
  "params (after (before_dispatch now m w)) = params (snd (param_value_rx now m w))"
  by (auto simp: before_dispatch_def upload_rx_def waypoint_request_rx_def waypoint_current_rx_def
      waypoint_rx_def waypoint_count_rx_def waypoint_item_rx_def Let_def
      split: option.splits msg.splits)

lemma mav_param_before_dispatch:
  "mav_param (after (before_dispatch now m w)) = mav_param (snd (param_value_rx now m w))"
  by (auto simp: before_dispatch_def upload_rx_def waypoint_request_rx_def waypoint_current_rx_def
      waypoint_rx_def waypoint_count_rx_def waypoint_item_rx_def Let_def
      split: option.splits msg.splits)


subsection \<open>Invariants of the loop\<close>

lemma final_mavlink_thread:
  "final (mavlink_thread run ls hook t0 ps st) =
     final (thread_loop run ls hook ps (thread_locals t0, st))"
  by (auto simp: mavlink_thread_def split: sum.splits prod.splits stop.splits)

lemma recv_loop_invariant:
  assumes rc: "\<And>v st. I (v, st) \<Longrightarrow> I (v, reconnect st)"
    and pm: "\<And>now m w. I w \<Longrightarrow> I (final (process_msg run ls hook now m w))"
  shows "I w \<Longrightarrow> I (final (recv_loop run ls hook rs w))"
proof (induction rs arbitrary: w)
  case Nil
  then show ?case by simp
next
  case (Cons r rs)
  show ?case
  proof (cases r)
    case (Recv_msg now m)
    have i: "I (final (process_msg run ls hook now m w))" using Cons.prems by (rule pm)
    show ?thesis
    proof (cases "process_msg run ls hook now m w")
      case (Inl x)
      then show ?thesis using i Recv_msg by simp
    next
      case (Inr w')
      then show ?thesis using i Recv_msg Cons.IH [of w'] by simp
    qed
  next
    case Recv_aborted
    have "I (fst w, reconnect (snd w))" using Cons.prems rc [of "fst w" "snd w"] by simp
    then show ?thesis using Recv_aborted Cons.IH by simp
  next
    case Recv_fatal
    then show ?thesis using Cons.prems by simp
  qed
qed

lemma fold_do_call_invariant:
  assumes "\<And>c v st. I (v, st) \<Longrightarrow> I (v, do_call c st)"
  shows "I (v, st) \<Longrightarrow> I (v, fold do_call cs st)"
  by (induction cs arbitrary: st) (auto intro: assms)

lemma loop_body_invariant:
  assumes c: "\<And>c v st. I (v, st) \<Longrightarrow> I (v, do_call c st)"
    and wd: "\<And>now w. I w \<Longrightarrow> I (param_watchdog now w)"
    and hb: "\<And>now b w. I w \<Longrightarrow> I (heartbeat_step now b w)"
    and dr: "\<And>ios v st. I (v, st) \<Longrightarrow> I (v, final (drain_out ios st))"
    and rc: "\<And>v st. I (v, st) \<Longrightarrow> I (v, reconnect st)"
    and pm: "\<And>now m w. I w \<Longrightarrow> I (final (process_msg run ls hook now m w))"
    and i: "I w"
  shows "I (final (loop_body run ls hook p w))"
proof -
  have "I (fst w, fold do_call (calls p) (snd w))"
    using i fold_do_call_invariant [of I "fst w" "snd w" "calls p"] c by simp
  then have i1: "I (heartbeat_step (clock p) (heartbeat_started p)
                      (param_watchdog (clock p) (fst w, fold do_call (calls p) (snd w))))"
    by (intro hb wd)
  obtain v1 st1 where e: "heartbeat_step (clock p) (heartbeat_started p)
                      (param_watchdog (clock p) (fst w, fold do_call (calls p) (snd w))) = (v1, st1)"
    by (cases "heartbeat_step (clock p) (heartbeat_started p)
                      (param_watchdog (clock p) (fst w, fold do_call (calls p) (snd w)))")
  have i2: "I (v1, final (drain_out (master_writes p) st1))"
    using i1 e dr by simp
  show ?thesis
  proof (cases "drain_out (master_writes p) st1")
    case (Inl x)
    then show ?thesis using i2 e by (cases x) (simp add: loop_body_def)
  next
    case (Inr st2)
    then show ?thesis
      using i2 e recv_loop_invariant [of I run ls hook "(v1, st2)" "recvs p", OF rc pm]
      by (simp add: loop_body_def)
  qed
qed

lemma thread_loop_invariant:
  assumes c: "\<And>c v st. I (v, st) \<Longrightarrow> I (v, do_call c st)"
    and wd: "\<And>now w. I w \<Longrightarrow> I (param_watchdog now w)"
    and hb: "\<And>now b w. I w \<Longrightarrow> I (heartbeat_step now b w)"
    and dr: "\<And>ios v st. I (v, st) \<Longrightarrow> I (v, final (drain_out ios st))"
    and rc: "\<And>v st. I (v, st) \<Longrightarrow> I (v, reconnect st)"
    and pm: "\<And>now m w. I w \<Longrightarrow> I (final (process_msg run ls hook now m w))"
  shows "I w \<Longrightarrow> I (final (thread_loop run ls hook ps w))"
proof (induction ps arbitrary: w)
  case Nil
  then show ?case by simp
next
  case (Cons p ps)
  have i: "I (final (loop_body run ls hook p w))"
    using Cons.prems by (intro loop_body_invariant [of I run ls hook w p] c wd hb dr rc pm)
  show ?case
  proof (cases "loop_body run ls hook p w")
    case (Inl x)
    then show ?thesis using i by simp
  next
    case (Inr w')
    then show ?thesis using i Cons.IH [of w'] by simp
  qed
qed

subsection \<open>The loaded flag of the parameter set\<close>

lemma params_do_call: "params (do_call c st) = params st"
  by (cases c) (simp_all add: fetch_def mav_writer_put_def)

lemma params_reconnect: "params (reconnect st) = params st"
  by (simp add: reconnect_def)

lemma params_drain_queue: "params (final (drain_queue q ios st)) = params st"
  by (induction q arbitrary: ios st) (auto simp: reconnect_def split: io.splits list.splits)

lemma params_heartbeat_step: "params (snd (heartbeat_step now b w)) = params (snd w)"
  by (auto simp: heartbeat_step_def Let_def split: prod.splits if_splits)

lemma loaded_sound_watchdog:
  "loaded_sound (params (snd w)) \<Longrightarrow> loaded_sound (params (snd (param_watchdog now w)))"
  by (auto simp: param_watchdog_def loaded_sound_def Let_def split: prod.splits if_splits)

lemma set_update_Some: "None \<notin> set xs \<Longrightarrow> None \<notin> set (xs[i := Some m])"
  by (metis insertE option.distinct(1) set_update_subset_insert subsetD)

lemma loaded_sound_param_value_rx:
  "loaded_sound (params (snd w)) \<Longrightarrow> loaded_sound (params (snd (param_value_rx now m w)))"
  by (cases m) (auto simp: param_value_rx_def loaded_sound_def Let_def set_update_Some
      split: prod.splits if_splits)

lemma loaded_sound_thread:
  assumes f: "frame params run hook" and i: "loaded_sound (params st)"
  shows "loaded_sound (params (snd (final (mavlink_thread run ls hook t0 ps st))))"
proof -
  have "loaded_sound (params (snd (final (thread_loop run ls hook ps (thread_locals t0, st)))))"
  proof (rule thread_loop_invariant [of "\<lambda>w :: worker. loaded_sound (params (snd w))"])
    show "loaded_sound (params (snd (thread_locals t0, st)))" using i by simp
  next
    fix now m and w :: worker
    assume "loaded_sound (params (snd w))"
    then show "loaded_sound (params (snd (final (process_msg run ls hook now m w))))"
      by (simp add: process_msg_frame [OF f] params_before_dispatch loaded_sound_param_value_rx)
  qed (simp_all add: params_do_call params_reconnect params_heartbeat_step
        loaded_sound_watchdog drain_out_def params_drain_queue)
  then show ?thesis by (simp add: final_mavlink_thread)
qed

lemma param_value_rx_never_loads:
  "loaded (params (snd (param_value_rx now m w))) \<Longrightarrow> loaded (params (snd w))"
  by (cases m) (auto simp: param_value_rx_def Let_def split: prod.splits if_splits)

lemma process_msg_never_loads:
  assumes f: "frame params run hook"
  shows "loaded (params (snd (final (process_msg run ls hook now m w)))) \<Longrightarrow> loaded (params (snd w))"
  by (simp add: process_msg_frame [OF f] params_before_dispatch param_value_rx_never_loads)

lemma watchdog_loaded_iff:
  "loaded_sound (params (snd w)) \<Longrightarrow>
   loaded (params (snd (param_watchdog now w))) =
     (start (params (snd (param_watchdog now w)))
      \<and> None \<notin> set (mav_param_set (params (snd (param_watchdog now w)))))"
  by (auto simp: param_watchdog_def loaded_sound_def Let_def split: prod.splits if_splits)

text \<open>
  C2 as the code has it.  \<open>loaded\<close> is set by the watchdog step at the top of a pass
  (lines 397-399), not by the \<^verbatim>\<open>PARAM_VALUE\<close> handler.  At the end of every prefix of
  the worker's passes (so after every dispatched message) \<open>loaded\<close> implies that the set
  has started and has no unknown slot; the converse holds right after a watchdog step;
  and handling a message never turns \<open>loaded\<close> on.  Callbacks are assumed to leave the
  \<^verbatim>\<open>PState\<close> object alone.
\<close>

theorem loaded_set_by_watchdog:
  assumes f: "frame params run hook"
    and i: "\<not> loaded (params st) \<or> (start (params st) \<and> None \<notin> set (mav_param_set (params st)))"
  shows "(let p = params (snd (final (mavlink_thread run ls hook t0 ps st)))
          in \<not> loaded p \<or> (start p \<and> None \<notin> set (mav_param_set p)))
       \<and> (let p = params (snd (param_watchdog now (final (mavlink_thread run ls hook t0 ps st))))
          in loaded p = (start p \<and> None \<notin> set (mav_param_set p)))
       \<and> (\<not> loaded (params (snd w)) \<longrightarrow>
            \<not> loaded (params (snd (final (process_msg run ls hook now m w)))))"
proof -
  have s: "loaded_sound (params (snd (final (mavlink_thread run ls hook t0 ps st))))"
    using f i by (intro loaded_sound_thread) (simp_all add: loaded_sound_def)
  show ?thesis
    using s watchdog_loaded_iff [OF s, of now] process_msg_never_loads [OF f, of ls now m w]
    by (auto simp: Let_def loaded_sound_def)
qed

theorem loaded_set_by_watchdog_witness:
  "frame params quiet None
   \<and> \<not> loaded (params new_link)
   \<and> \<not> loaded (params (snd (final (mavlink_thread quiet Map.empty None 0 [only_of_1] new_link))))
   \<and> loaded (params (snd (param_watchdog 1
        (final (mavlink_thread quiet Map.empty None 0 [only_of_1] new_link)))))"
proof -
  have f: "frame params quiet None" by (simp add: frame_def quiet_def)
  have i: "\<not> loaded (params new_link) \<or> (start (params new_link) \<and> None \<notin> set (mav_param_set (params new_link)))"
    by (simp add: new_link_def)
  have c: "start (params (snd (final (mavlink_thread quiet Map.empty None 0 [only_of_1] new_link))))
     \<and> None \<notin> set (mav_param_set (params (snd (final (mavlink_thread quiet Map.empty None 0 [only_of_1] new_link)))))
     \<and> \<not> loaded (params (snd (final (mavlink_thread quiet Map.empty None 0 [only_of_1] new_link))))"
    by code_simp
  have n: "\<not> loaded (params new_link)" by (simp add: new_link_def)
  have w: "start (params (snd (param_watchdog 1 (final (mavlink_thread quiet Map.empty None 0 [only_of_1] new_link)))))
     \<and> None \<notin> set (mav_param_set (params (snd (param_watchdog 1 (final (mavlink_thread quiet Map.empty None 0 [only_of_1] new_link))))))"
    by code_simp
  show ?thesis
    using loaded_set_by_watchdog [OF f i, of Map.empty 0 "[only_of_1]" 1] f n c w
    by (simp add: Let_def)
qed

text \<open>
  C2 as stated fails: after the only value of a set of one has been dispatched, the set
  has started and has no unknown slot, and \<open>loaded\<close> is still false.
\<close>

theorem loaded_after_last_slot_counterexample:
  "start (params (snd (final (mavlink_thread quiet Map.empty None 0 [only_of_1] new_link))))
   \<and> None \<notin> set (mav_param_set (params (snd (final
        (mavlink_thread quiet Map.empty None 0 [only_of_1] new_link)))))
   \<and> \<not> loaded (params (snd (final
        (mavlink_thread quiet Map.empty None 0 [only_of_1] new_link))))"
  by code_simp

subsection \<open>The duration of the parameter watchdog\<close>

lemma param_value_rx_duration:
  "duration (fst (param_value_rx now m w)) =
     (case m of
        PARAM_VALUE pid pval idx cnt \<Rightarrow>
          if idx < cnt \<and> ((idx < length (mav_param_set (params (snd w)))
                             \<and> mav_param_set (params (snd w)) ! idx = None)
                            \<or> mav_param_count (params (snd w)) \<noteq> int cnt)
          then start_duration else duration (fst w)
      | _ \<Rightarrow> duration (fst w))"
  by (cases m) (auto simp: param_value_rx_def Let_def split: prod.splits)

lemma param_watchdog_duration:
  "duration (fst (param_watchdog now w)) =
     (if watchdog_fires now w then repeat_duration else duration (fst w))"
  by (auto simp: param_watchdog_def watchdog_fires_def Let_def split: prod.splits)

lemma heartbeat_step_duration: "duration (fst (heartbeat_step now b w)) = duration (fst w)"
  by (auto simp: heartbeat_step_def Let_def split: prod.splits)

text \<open>
  C5 as the code has it.  The duration starts at \<open>start_duration\<close> (0.2); a firing of the
  watchdog sets it to \<open>repeat_duration\<close> (1); a \<^verbatim>\<open>PARAM_VALUE\<close> that fills a slot that was
  unknown (its index is below the count, and the slot is unknown or the count is new)
  sets it back to \<open>start_duration\<close>, also within the same set; nothing else changes it.
\<close>

theorem duration_reset_by_new_slot:
  "duration (thread_locals t0) = start_duration \<and> start_duration = 2 / 10
   \<and> repeat_duration = 1
   \<and> duration (fst (param_watchdog now w)) =
       (if watchdog_fires now w then repeat_duration else duration (fst w))
   \<and> duration (fst (heartbeat_step now b w)) = duration (fst w)
   \<and> duration (fst (final (process_msg run ls hook now m w))) =
       (case m of
          PARAM_VALUE pid pval idx cnt \<Rightarrow>
            if idx < cnt \<and> ((idx < length (mav_param_set (params (snd w)))
                               \<and> mav_param_set (params (snd w)) ! idx = None)
                              \<or> mav_param_count (params (snd w)) \<noteq> int cnt)
            then start_duration else duration (fst w)
        | _ \<Rightarrow> duration (fst w))"
  by (simp add: process_msg_duration param_value_rx_duration param_watchdog_duration
      heartbeat_step_duration thread_locals_def start_duration_def repeat_duration_def)

theorem duration_reset_by_new_slot_witness:
  "watchdog_fires 1 one_of_3
   \<and> duration (fst (param_watchdog 1 one_of_3)) = 1
   \<and> duration (fst (final (process_msg quiet Map.empty None 1 (PARAM_VALUE ''B'' 2 1 3)
        (param_watchdog 1 one_of_3)))) = 2 / 10"
proof -
  have a: "watchdog_fires 1 one_of_3" by code_simp
  have b: "mav_param_set (params (snd (param_watchdog 1 one_of_3)))
             = [Some (PARAM_VALUE ''A'' 1 0 3), None, None]" by code_simp
  show ?thesis
    using duration_reset_by_new_slot [of 0 1 one_of_3 True quiet Map.empty None
        "PARAM_VALUE ''B'' 2 1 3"]
      duration_reset_by_new_slot [of 0 1 "param_watchdog 1 one_of_3" True quiet Map.empty None
        "PARAM_VALUE ''B'' 2 1 3"]
      a b
    by simp
qed

text \<open>
  C5 as stated fails: in a set of 3, value 0 arrives, the watchdog re-requests (duration
  1), and value 1 of the same set (the count is still 3) resets the duration to 0.2.
\<close>

theorem duration_reset_counterexample:
  "duration (fst (final (mavlink_thread quiet Map.empty None 0 [first_of_3, idle_at 1] new_link)))
     = repeat_duration
   \<and> wire (snd (final (mavlink_thread quiet Map.empty None 0 [first_of_3, idle_at 1] new_link)))
     = [Param_request_read_send 0 0 [] 1, Param_request_read_send 0 0 [] 2]
   \<and> mav_param_count (params (snd (final
        (mavlink_thread quiet Map.empty None 0 [first_of_3, idle_at 1] new_link)))) = 3
   \<and> mav_param_count (params (snd (final
        (mavlink_thread quiet Map.empty None 0 [first_of_3, second_of_3] new_link)))) = 3
   \<and> duration (fst (final
        (mavlink_thread quiet Map.empty None 0 [first_of_3, second_of_3] new_link)))
     = start_duration
   \<and> start_duration < repeat_duration"
  by code_simp

subsection \<open>The keyed parameter mapping\<close>

lemma slots_match_param_value_rx:
  "slots_match (params (snd w)) \<Longrightarrow> slots_match (params (snd (param_value_rx now m w)))"
  by (cases m) (auto simp: param_value_rx_def slots_match_def Let_def split: prod.splits)

lemma mav_param_param_value_rx:
  "slots_match (params (snd w)) \<Longrightarrow>
   mav_param (snd (param_value_rx now m w)) = store_param m (mav_param (snd w))"
  by (cases m) (auto simp: param_value_rx_def slots_match_def Let_def split: prod.splits)

lemma slots_match_watchdog:
  "slots_match (params (snd (param_watchdog now w))) = slots_match (params (snd w))"
  by (auto simp: param_watchdog_def slots_match_def Let_def split: prod.splits)

lemma mav_param_watchdog: "mav_param (snd (param_watchdog now w)) = mav_param (snd w)"
  by (auto simp: param_watchdog_def Let_def split: prod.splits)

lemma mav_param_do_call: "mav_param (do_call c st) = mav_param st"
  by (cases c) (simp_all add: fetch_def mav_writer_put_def)

lemma mav_param_fold_do_call: "mav_param (fold do_call cs st) = mav_param st"
  by (induction cs arbitrary: st) (simp_all add: mav_param_do_call)

lemma params_fold_do_call: "params (fold do_call cs st) = params st"
  by (induction cs arbitrary: st) (simp_all add: params_do_call)

lemma mav_param_reconnect: "mav_param (reconnect st) = mav_param st"
  by (simp add: reconnect_def)

lemma mav_param_drain_queue: "mav_param (final (drain_queue q ios st)) = mav_param st"
  by (induction q arbitrary: ios st) (auto simp: reconnect_def split: io.splits list.splits)

lemma mav_param_heartbeat_step: "mav_param (snd (heartbeat_step now b w)) = mav_param (snd w)"
  by (auto simp: heartbeat_step_def Let_def split: prod.splits if_splits)

lemma process_msg_stores:
  assumes fp: "frame params run hook" and fm: "frame mav_param run hook"
    and s: "slots_match (params (snd w))"
  shows "mav_param (snd (final (process_msg run ls hook now m w))) = store_param m (mav_param (snd w))
         \<and> slots_match (params (snd (final (process_msg run ls hook now m w))))"
  using s
  by (simp add: process_msg_frame [OF fp] process_msg_frame [OF fm] params_before_dispatch
      mav_param_before_dispatch slots_match_param_value_rx mav_param_param_value_rx)

lemma recv_loop_stores:
  assumes fp: "frame params run hook" and fm: "frame mav_param run hook"
  shows "slots_match (params (snd w)) \<Longrightarrow> recv_loop run ls hook rs w = Inr w' \<Longrightarrow>
         mav_param (snd w') = fold store_param (received_of rs) (mav_param (snd w))
         \<and> slots_match (params (snd w'))"
proof (induction rs arbitrary: w)
  case Nil
  then show ?case by simp
next
  case (Cons r rs)
  show ?case
  proof (cases r)
    case (Recv_msg now m)
    then obtain w1 where p: "process_msg run ls hook now m w = Inr w1"
      and l: "recv_loop run ls hook rs w1 = Inr w'"
      using Cons.prems(2) by (auto split: sum.splits)
    have "mav_param (snd w1) = store_param m (mav_param (snd w)) \<and> slots_match (params (snd w1))"
      using process_msg_stores [OF fp fm Cons.prems(1), of ls now m] p by simp
    then show ?thesis using Cons.IH [of w1] l Recv_msg by simp
  next
    case Recv_aborted
    then show ?thesis
      using Cons.prems Cons.IH [of "(fst w, reconnect (snd w))"]
      by (simp add: params_reconnect mav_param_reconnect)
  next
    case Recv_fatal
    then show ?thesis using Cons.prems by simp
  qed
qed

lemma loop_body_stores:
  assumes fp: "frame params run hook" and fm: "frame mav_param run hook"
    and s: "slots_match (params (snd w))" and r: "loop_body run ls hook p w = Inr w'"
  shows "mav_param (snd w') = fold store_param (received_of (recvs p)) (mav_param (snd w))
         \<and> slots_match (params (snd w'))"
proof -
  let ?w1 = "heartbeat_step (clock p) (heartbeat_started p)
               (param_watchdog (clock p) (fst w, fold do_call (calls p) (snd w)))"
  obtain v1 st1 where e: "?w1 = (v1, st1)" by (cases ?w1)
  have m1: "mav_param st1 = mav_param (snd w)"
    using arg_cong [OF e, of "\<lambda>x. mav_param (snd x)"]
    by (simp add: mav_param_heartbeat_step mav_param_watchdog mav_param_fold_do_call)
  have s1: "slots_match (params st1)"
    using arg_cong [OF e, of "\<lambda>x. slots_match (params (snd x))"] s
    by (simp add: params_heartbeat_step slots_match_watchdog params_fold_do_call)
  from r e obtain st2 where d: "drain_out (master_writes p) st1 = Inr st2"
    and l: "recv_loop run ls hook (recvs p) (v1, st2) = Inr w'"
    by (auto simp: loop_body_def split: sum.splits)
  have m2: "mav_param st2 = mav_param st1" and p2: "params st2 = params st1"
    using mav_param_drain_queue [of "out_queue st1" "master_writes p" st1]
      params_drain_queue [of "out_queue st1" "master_writes p" st1] d
    by (simp_all add: drain_out_def)
  show ?thesis
    using recv_loop_stores [OF fp fm, of "(v1, st2)" ls "recvs p" w'] l m1 m2 p2 s1 by simp
qed

lemma thread_loop_stores:
  assumes fp: "frame params run hook" and fm: "frame mav_param run hook"
  shows "slots_match (params (snd w)) \<Longrightarrow> thread_loop run ls hook ps w = Inr w' \<Longrightarrow>
         mav_param (snd w') = fold store_param (received ps) (mav_param (snd w))
         \<and> slots_match (params (snd w'))"
proof (induction ps arbitrary: w)
  case Nil
  then show ?case by (simp add: received_def)
next
  case (Cons p ps)
  from Cons.prems(2) obtain w1 where b: "loop_body run ls hook p w = Inr w1"
    and t: "thread_loop run ls hook ps w1 = Inr w'"
    by (auto split: sum.splits)
  have "mav_param (snd w1) = fold store_param (received_of (recvs p)) (mav_param (snd w))
        \<and> slots_match (params (snd w1))"
    by (rule loop_body_stores [OF fp fm Cons.prems(1) b])
  then show ?case using Cons.IH [of w1] t by (simp add: received_def)
qed

lemma mavlink_thread_Inr:
  "mavlink_thread run ls hook t0 ps st = Inr w' \<Longrightarrow>
   thread_loop run ls hook ps (thread_locals t0, st) = Inr w'"
  by (auto simp: mavlink_thread_def split: sum.splits prod.splits stop.splits if_splits)

lemma fold_store_latest:
  "\<forall>m \<in> set post. \<forall>v i c. m \<noteq> PARAM_VALUE pid v i c \<Longrightarrow>
   fold store_param (pre @ PARAM_VALUE pid pval idx cnt # post) mp pid = Some pval"
proof (induction post arbitrary: pre rule: rev_induct)
  case Nil
  show ?case by simp
next
  case (snoc m post)
  have "fold store_param (pre @ PARAM_VALUE pid pval idx cnt # post) mp pid = Some pval"
    using snoc.prems by (intro snoc.IH) simp
  moreover have "\<forall>v i c. m \<noteq> PARAM_VALUE pid v i c" using snoc.prems by simp
  ultimately show ?case by (cases m) auto
qed

lemma fold_store_some:
  "PARAM_VALUE pid pval idx cnt \<in> set msgs \<Longrightarrow>
   \<exists>v i c. fold store_param msgs mp pid = Some v \<and> PARAM_VALUE pid v i c \<in> set msgs"
proof (induction msgs arbitrary: pval idx cnt rule: rev_induct)
  case Nil
  then show ?case by simp
next
  case (snoc m msgs)
  show ?case
  proof (cases "\<exists>v i c. m = PARAM_VALUE pid v i c")
    case True
    then obtain v i c where "m = PARAM_VALUE pid v i c" by blast
    then have "fold store_param (msgs @ [m]) mp pid = Some v
               \<and> PARAM_VALUE pid v i c \<in> set (msgs @ [m])" by simp
    then show ?thesis by blast
  next
    case False
    then have "PARAM_VALUE pid pval idx cnt \<in> set msgs" using snoc.prems by auto
    then obtain v i c where "fold store_param msgs mp pid = Some v"
      and "PARAM_VALUE pid v i c \<in> set msgs" using snoc.IH by blast
    then show ?thesis using False by (cases m) auto
  qed
qed


text \<open>
  C6.  While the worker runs, the keyed mapping is the mapping at the start with the
  \<open>param_id\<close> to \<open>param_value\<close> pair of every received \<^verbatim>\<open>PARAM_VALUE\<close> stored in order
  of arrival, whatever its index: every received id has an entry, whose value is that of
  the latest message with the id.  The store also happens for the message during whose
  dispatch the worker ends.  Callbacks are assumed to leave the \<^verbatim>\<open>PState\<close> object and the
  mapping alone, and the slots to be as many as the stored count at the start (as in a
  new link).
\<close>

theorem mav_param_holds_every_param_value:
  assumes fp: "frame params run hook" and fm: "frame mav_param run hook"
    and s: "slots_match (params st)"
    and r: "mavlink_thread run ls hook t0 ps st = Inr w'"
  shows "mav_param (snd w') = fold store_param (received ps) (mav_param st)
       \<and> (\<forall>pid pval idx cnt. PARAM_VALUE pid pval idx cnt \<in> set (received ps) \<longrightarrow>
            (\<exists>v i c. mav_param (snd w') pid = Some v \<and> PARAM_VALUE pid v i c \<in> set (received ps)))
       \<and> (\<forall>pre pid pval idx cnt post.
            received ps = pre @ PARAM_VALUE pid pval idx cnt # post
            \<and> (\<forall>m \<in> set post. \<forall>v i c. m \<noteq> PARAM_VALUE pid v i c)
            \<longrightarrow> mav_param (snd w') pid = Some pval)
       \<and> (\<forall>now pid pval idx cnt.
            mav_param (snd (final (process_msg run ls hook now (PARAM_VALUE pid pval idx cnt) w')))
              = (mav_param (snd w'))(pid \<mapsto> pval))"
proof -
  have t: "thread_loop run ls hook ps (thread_locals t0, st) = Inr w'"
    using r by (rule mavlink_thread_Inr)
  have a: "mav_param (snd w') = fold store_param (received ps) (mav_param st)"
    and s': "slots_match (params (snd w'))"
    using thread_loop_stores [OF fp fm, of "(thread_locals t0, st)" ls ps w'] s t by simp_all
  have b: "\<exists>v i c. mav_param (snd w') pid = Some v \<and> PARAM_VALUE pid v i c \<in> set (received ps)"
    if "PARAM_VALUE pid pval idx cnt \<in> set (received ps)" for pid pval idx cnt
    using fold_store_some [OF that, of "mav_param st"] a by simp
  have c: "mav_param (snd w') pid = Some pval"
    if "received ps = pre @ PARAM_VALUE pid pval idx cnt # post"
      and "\<forall>m \<in> set post. \<forall>v i c. m \<noteq> PARAM_VALUE pid v i c"
    for pre pid pval idx cnt post
    using fold_store_latest [OF that(2), of pre pval idx cnt "mav_param st"] a that(1) by simp
  have d: "mav_param (snd (final (process_msg run ls hook now (PARAM_VALUE pid pval idx cnt) w')))
              = (mav_param (snd w'))(pid \<mapsto> pval)" for now pid pval idx cnt
    using process_msg_stores [OF fp fm s', of ls now "PARAM_VALUE pid pval idx cnt"] by simp
  show ?thesis
  proof (intro conjI allI impI)
    show "mav_param (snd w') = fold store_param (received ps) (mav_param st)" by (rule a)
  next
    fix pid pval idx cnt
    assume "PARAM_VALUE pid pval idx cnt \<in> set (received ps)"
    then show "\<exists>v i c. mav_param (snd w') pid = Some v
                 \<and> PARAM_VALUE pid v i c \<in> set (received ps)" by (rule b)
  next
    fix pre pid pval idx cnt post
    assume "received ps = pre @ PARAM_VALUE pid pval idx cnt # post
            \<and> (\<forall>m \<in> set post. \<forall>v i c. m \<noteq> PARAM_VALUE pid v i c)"
    then show "mav_param (snd w') pid = Some pval" using c [of pre pid pval idx cnt post] by simp
  next
    fix now pid pval idx cnt
    show "mav_param (snd (final (process_msg run ls hook now (PARAM_VALUE pid pval idx cnt) w')))
              = (mav_param (snd w'))(pid \<mapsto> pval)" by (rule d)
  qed
qed

theorem mav_param_holds_every_param_value_witness:
  "frame params quiet None \<and> frame mav_param quiet None \<and> slots_match (params new_link)
   \<and> mavlink_thread quiet Map.empty None 0 [first_of_3, second_of_3, again_A] new_link
       = Inr (final (mavlink_thread quiet Map.empty None 0
                [first_of_3, second_of_3, again_A] new_link))
   \<and> mav_param (snd (final (mavlink_thread quiet Map.empty None 0
        [first_of_3, second_of_3, again_A] new_link))) ''A'' = Some 5
   \<and> mav_param (snd (final (mavlink_thread quiet Map.empty None 0
        [first_of_3, second_of_3, again_A] new_link))) ''B'' = Some 2"
proof -
  let ?r = "mavlink_thread quiet Map.empty None 0 [first_of_3, second_of_3, again_A] new_link"
  have fp: "frame params quiet None" and fm: "frame mav_param quiet None"
    by (simp_all add: frame_def quiet_def)
  have s: "slots_match (params new_link)" by (simp add: slots_match_def new_link_def)
  have "case ?r of Inl x \<Rightarrow> False | Inr w \<Rightarrow> True" by code_simp
  then have r: "?r = Inr (final ?r)" by (cases ?r) simp_all
  have "mav_param (snd (final ?r))
          = fold store_param (received [first_of_3, second_of_3, again_A]) (mav_param new_link)"
    by (rule mav_param_holds_every_param_value [OF fp fm s r, THEN conjunct1])
  then have "mav_param (snd (final ?r)) ''A'' = Some 5 \<and> mav_param (snd (final ?r)) ''B'' = Some 2"
    by (simp add: received_def first_of_3_def second_of_3_def again_A_def)
  then show ?thesis using fp fm s r by simp
qed

subsection \<open>Mission download\<close>

lemma wploader_do_call: "wploader (do_call c st) = wploader st"
  by (cases c) (simp_all add: fetch_def mav_writer_put_def)

lemma wploader_reconnect: "wploader (reconnect st) = wploader st"
  by (simp add: reconnect_def)

lemma wploader_drain_queue: "wploader (final (drain_queue q ios st)) = wploader st"
  by (induction q arbitrary: ios st) (auto simp: reconnect_def split: io.splits list.splits)

lemma wploader_heartbeat_step: "wploader (snd (heartbeat_step now b w)) = wploader (snd w)"
  by (auto simp: heartbeat_step_def Let_def split: prod.splits if_splits)

lemma wploader_watchdog: "wploader (snd (param_watchdog now w)) = wploader (snd w)"
  by (auto simp: param_watchdog_def Let_def split: prod.splits)

lemma wploader_param_value_rx: "wploader (snd (param_value_rx now m w)) = wploader (snd w)"
  by (cases m) (auto simp: param_value_rx_def Let_def split: prod.splits)

lemma gap_free_append: "gap_free ws \<Longrightarrow> seq w = length ws \<Longrightarrow> gap_free (ws @ [w])"
  by (simp add: gap_free_def)

lemma gap_free_retarget:
  assumes "gap_free ws"
  shows "gap_free (ws[s := (ws ! s)\<lparr>wp_target_system := a, wp_target_component := b\<rparr>])"
proof (cases "s < length ws")
  case True
  have "map seq (ws[s := (ws ! s)\<lparr>wp_target_system := a, wp_target_component := b\<rparr>])
          = (map seq ws)[s := map seq ws ! s]"
    using True by (simp add: map_update)
  then have "map seq (ws[s := (ws ! s)\<lparr>wp_target_system := a, wp_target_component := b\<rparr>])
          = map seq ws" by simp
  then show ?thesis using \<open>gap_free ws\<close> by (simp add: gap_free_def)
next
  case False
  then have "length ws \<le> s" by simp
  then show ?thesis using \<open>gap_free ws\<close> by (simp add: list_update_beyond)
qed

lemma gap_free_waypoint_rx:
  "gap_free (wpoints (wploader st)) \<Longrightarrow> gap_free (wpoints (wploader (waypoint_rx m st)))"
  by (cases m)
    (auto simp: waypoint_rx_def waypoint_count_rx_def waypoint_item_rx_def Let_def
      gap_free_append, simp_all add: gap_free_def)

lemma gap_free_upload_rx:
  "gap_free (wpoints (wploader st)) \<Longrightarrow> gap_free (wpoints (wploader (after (upload_rx m st))))"
  by (cases m)
    (auto simp: upload_rx_def waypoint_request_rx_def Let_def gap_free_retarget
      split: option.splits)

lemma wploader_waypoint_current_rx: "wploader (waypoint_current_rx m st) = wploader st"
  by (cases m) (simp_all add: waypoint_current_rx_def)

lemma gap_free_before_dispatch:
  "gap_free (wpoints (wploader (snd w))) \<Longrightarrow>
   gap_free (wpoints (wploader (after (before_dispatch now m w))))"
  by (simp add: before_dispatch_def gap_free_upload_rx wploader_waypoint_current_rx
      gap_free_waypoint_rx wploader_param_value_rx)

lemma gap_free_thread:
  assumes f: "frame wploader run hook" and i: "gap_free (wpoints (wploader st))"
  shows "gap_free (wpoints (wploader (snd (final (mavlink_thread run ls hook t0 ps st)))))"
proof -
  have "gap_free (wpoints (wploader (snd (final
          (thread_loop run ls hook ps (thread_locals t0, st))))))"
  proof (rule thread_loop_invariant [of "\<lambda>w :: worker. gap_free (wpoints (wploader (snd w)))"])
    show "gap_free (wpoints (wploader (snd (thread_locals t0, st))))" using i by simp
  next
    fix now m and w :: worker
    assume "gap_free (wpoints (wploader (snd w)))"
    then show "gap_free (wpoints (wploader (snd (final (process_msg run ls hook now m w)))))"
      by (simp add: process_msg_frame [OF f] gap_free_before_dispatch)
  qed (simp_all add: wploader_do_call wploader_reconnect wploader_heartbeat_step
        wploader_watchdog drain_out_def wploader_drain_queue)
  then show ?thesis by (simp add: final_mavlink_thread)
qed

lemma gap_free_increasing: "gap_free ws \<Longrightarrow> sorted_wrt (<) (map seq ws)"
  by (simp add: gap_free_def)


text \<open>
  C1.  While the download side is not loaded, a \<^verbatim>\<open>MISSION_ITEM\<close> or \<^verbatim>\<open>WAYPOINT\<close> whose
  \<open>seq\<close> is above or below the number \<open>n\<close> of received waypoints changes nothing; one
  with \<open>seq = n\<close> is appended, and then \<^verbatim>\<open>WAYPOINT_REQUEST(seq + 1)\<close> is sent when
  \<open>seq + 1 < expected_count\<close>, else the download side is marked loaded.  Consequently the
  received list carries the sequence numbers 0 to \<open>n - 1\<close> in order (strictly
  increasing, no gap) at every point of the worker's run.  Callbacks are assumed to
  leave the waypoint loader alone.
\<close>

theorem waypoint_download_prefix:
  assumes f: "frame wploader run hook" and i: "gap_free (wpoints (wploader st))"
  shows "(\<not> wp_loaded s \<and> m \<in> {MISSION_ITEM w, WAYPOINT w} \<longrightarrow>
           waypoint_rx m s =
             (if seq w > length (wpoints (wploader s)) then s
              else if seq w < length (wpoints (wploader s)) then s
              else if seq w + 1 < expected_count (wploader s)
                   then s\<lparr>wploader := (wploader s)\<lparr>wpoints := wpoints (wploader s) @ [w]\<rparr>,
                          out_queue := out_queue s @ [Waypoint_request_send (seq w + 1)]\<rparr>
                   else s\<lparr>wploader := (wploader s)\<lparr>wpoints := wpoints (wploader s) @ [w]\<rparr>,
                          wp_loaded := True\<rparr>))
       \<and> map seq (wpoints (wploader (snd (final (mavlink_thread run ls hook t0 ps st)))))
           = [0..<length (wpoints (wploader (snd (final (mavlink_thread run ls hook t0 ps st)))))]
       \<and> sorted_wrt (<)
           (map seq (wpoints (wploader (snd (final (mavlink_thread run ls hook t0 ps st))))))"
proof (intro conjI impI)
  assume "\<not> wp_loaded s \<and> m \<in> {MISSION_ITEM w, WAYPOINT w}"
  then show "waypoint_rx m s =
             (if seq w > length (wpoints (wploader s)) then s
              else if seq w < length (wpoints (wploader s)) then s
              else if seq w + 1 < expected_count (wploader s)
                   then s\<lparr>wploader := (wploader s)\<lparr>wpoints := wpoints (wploader s) @ [w]\<rparr>,
                          out_queue := out_queue s @ [Waypoint_request_send (seq w + 1)]\<rparr>
                   else s\<lparr>wploader := (wploader s)\<lparr>wpoints := wpoints (wploader s) @ [w]\<rparr>,
                          wp_loaded := True\<rparr>)"
    by (auto simp: waypoint_rx_def waypoint_item_rx_def Let_def)
next
  have g: "gap_free (wpoints (wploader (snd (final (mavlink_thread run ls hook t0 ps st)))))"
    by (rule gap_free_thread [OF f i])
  show "map seq (wpoints (wploader (snd (final (mavlink_thread run ls hook t0 ps st)))))
           = [0..<length (wpoints (wploader (snd (final (mavlink_thread run ls hook t0 ps st)))))]"
    using g by (simp add: gap_free_def)
  show "sorted_wrt (<)
           (map seq (wpoints (wploader (snd (final (mavlink_thread run ls hook t0 ps st))))))"
    using g by (rule gap_free_increasing)
qed

theorem waypoint_download_prefix_witness:
  "frame wploader quiet None \<and> gap_free (wpoints (wploader new_link))
   \<and> map seq (wpoints (wploader (snd (final
        (mavlink_thread quiet Map.empty None 0 [download_2] new_link))))) = [0, 1]
   \<and> wp_loaded (snd (final (mavlink_thread quiet Map.empty None 0 [download_2] new_link)))
   \<and> out_queue (snd (final (mavlink_thread quiet Map.empty None 0 [download_2] new_link)))
       = [Waypoint_request_send 0, Waypoint_request_send 1]"
proof -
  let ?st = "snd (final (mavlink_thread quiet Map.empty None 0 [download_2] new_link))"
  have f: "frame wploader quiet None" by (simp add: frame_def quiet_def)
  have i: "gap_free (wpoints (wploader new_link))" by (simp add: gap_free_def new_link_def)
  have n: "length (wpoints (wploader ?st)) = 2 \<and> wp_loaded ?st
           \<and> out_queue ?st = [Waypoint_request_send 0, Waypoint_request_send 1]"
    by code_simp
  have "map seq (wpoints (wploader ?st)) = [0..<length (wpoints (wploader ?st))]"
    by (rule waypoint_download_prefix [OF f i, THEN conjunct2, THEN conjunct1])
  then have "map seq (wpoints (wploader ?st)) = [0, 1]"
    using n by (simp add: upt_rec)
  then show ?thesis using f i n by simp
qed

subsection \<open>A listener that raises\<close>

lemma call_listeners_append:
  "call_listeners run (xs @ ys) ty m st =
     (case call_listeners run xs ty m st of
        (c1, Inl x) \<Rightarrow> (c1, Inl x)
      | (c1, Inr st1) \<Rightarrow> (let (c2, r) = call_listeners run ys ty m st1 in (c1 @ c2, r)))"
  by (induction xs arbitrary: st) (auto split: sum.splits prod.splits)

lemma call_listeners_Inr_called:
  "snd (call_listeners run fns ty m st) = Inr st1 \<Longrightarrow> fst (call_listeners run fns ty m st) = fns"
proof (induction fns arbitrary: st)
  case Nil
  show ?case by simp
next
  case (Cons g fns)
  show ?case
  proof (cases "run g ty m st")
    case (Inl x)
    then show ?thesis using Cons.prems by simp
  next
    case (Inr st')
    then have "snd (call_listeners run fns ty m st') = Inr st1"
      using Cons.prems by (simp add: split_beta)
    then have "fst (call_listeners run fns ty m st') = fns" by (rule Cons.IH)
    then show ?thesis using Inr by (simp add: split_beta)
  qed
qed

lemma call_listeners_raise:
  assumes "snd (call_listeners run pre ty m st) = Inr st1" and "run f ty m st1 = Inl (e, st2)"
  shows "call_listeners run (pre @ f # post) ty m st = (pre @ [f], Inl (e, st2))"
proof -
  have "call_listeners run pre ty m st = (pre, Inr st1)"
    using assms(1) call_listeners_Inr_called [OF assms(1)] by (simp add: prod_eq_iff)
  then show ?thesis using assms(2) by (simp add: call_listeners_append)
qed

lemma mavlink_packet_one_loop:
  "mavlink_packet run ls hook m st =
     (case call_listeners run (get_listeners ls (get_type m) @ get_listeners ls ''*'')
             (get_type m) m st of
        (c, Inl x) \<Rightarrow> (c, Inl x)
      | (c, Inr st2) \<Rightarrow> (c, case hook of None \<Rightarrow> Inr st2 | Some h \<Rightarrow> h m st2))"
  by (auto simp: mavlink_packet_def call_listeners_append Let_def split: sum.splits prod.splits)

lemma mavlink_packet_raise:
  assumes "get_listeners ls (get_type m) @ get_listeners ls ''*'' = pre @ f # post"
    and "snd (call_listeners run pre (get_type m) m st) = Inr st1"
    and "run f (get_type m) m st1 = Inl (e, st2)"
  shows "mavlink_packet run ls hook m st = (pre @ [f], Inl (e, st2))"
  using call_listeners_raise [OF assms(2) assms(3), of post] assms(1)
  by (simp add: mavlink_packet_one_loop)

lemma process_msg_raise:
  assumes "before_dispatch now m w = Inr st"
    and "snd (mavlink_packet run ls hook m st) = Inl (e, st2)"
  shows "\<exists>v. process_msg run ls hook now m w = Inl (Raise e, (v, st2))"
  using assms
  by (auto simp: process_msg_def before_dispatch_def Let_def split: prod.splits sum.splits)

lemma recv_loop_append:
  "recv_loop run ls hook (rs @ rs') w =
     (case recv_loop run ls hook rs w of Inl x \<Rightarrow> Inl x | Inr w1 \<Rightarrow> recv_loop run ls hook rs' w1)"
proof (induction rs arbitrary: w)
  case Nil
  show ?case by simp
next
  case (Cons r rs)
  show ?case by (cases r) (simp_all add: Cons.IH split: sum.splits)
qed

lemma thread_loop_append:
  "thread_loop run ls hook (ps @ ps') w =
     (case thread_loop run ls hook ps w of Inl x \<Rightarrow> Inl x | Inr w1 \<Rightarrow> thread_loop run ls hook ps' w1)"
  by (induction ps arbitrary: w) (simp_all split: sum.splits)

lemma loop_body_recvs_append:
  "loop_body run ls hook (p\<lparr>recvs := rs @ rs'\<rparr>) w =
     (case loop_body run ls hook (p\<lparr>recvs := rs\<rparr>) w of
        Inl x \<Rightarrow> Inl x
      | Inr w1 \<Rightarrow> recv_loop run ls hook rs' w1)"
  by (auto simp: loop_body_def recv_loop_append Let_def split: prod.splits sum.splits)

lemma mavlink_thread_raise:
  "thread_loop run ls hook ps (thread_locals t0, st) = Inl (Raise e, w) \<Longrightarrow>
   mavlink_thread run ls hook t0 ps st = Inl (if exiting (snd w) then Return else Raise e, w)"
  by (simp add: mavlink_thread_def)

text \<open>
  C3 as the code has it.  \<^verbatim>\<open>mavlink_packet\<close> has no handler around the call of a
  listener.  When the worker is alive after the passes \<open>ps\<close>, the current pass has
  reached the message \<open>m\<close>, and the listener \<open>f\<close> raises after the listeners \<open>pre\<close> before
  it have returned, then the listeners \<open>post\<close> after it (the rest of the message type's
  and the wildcard ones) and the raw hook are not called, and the worker's loop ends
  there, whatever messages and passes would follow: the handler around the loop raises
  the exception again unless \<open>exiting\<close> is set, and drops it if it is.
\<close>

theorem listener_exception_ends_worker:
  assumes alive: "mavlink_thread run ls hook t0 ps st0 = Inr w1"
    and reached: "loop_body run ls hook (p\<lparr>recvs := rs\<rparr>) w1 = Inr w2"
    and stages: "before_dispatch now m w2 = Inr st"
    and listeners: "get_listeners ls (get_type m) @ get_listeners ls ''*'' = pre @ f # post"
    and returned: "snd (call_listeners run pre (get_type m) m st) = Inr st1"
    and raised: "run f (get_type m) m st1 = Inl (e, st2)"
  shows "mavlink_packet run ls hook m st = (pre @ [f], Inl (e, st2))
       \<and> (\<exists>v. mavlink_thread run ls hook t0
                 (ps @ p\<lparr>recvs := rs @ Recv_msg now m # later\<rparr> # rest) st0
               = Inl (if exiting st2 then Return else Raise e, (v, st2)))"
proof
  show d: "mavlink_packet run ls hook m st = (pre @ [f], Inl (e, st2))"
    by (rule mavlink_packet_raise [OF listeners returned raised])
  obtain v where pm: "process_msg run ls hook now m w2 = Inl (Raise e, (v, st2))"
    using process_msg_raise [OF stages, of run ls hook e st2] d by auto
  have "recv_loop run ls hook (Recv_msg now m # later) w2 = Inl (Raise e, (v, st2))"
    using pm by simp
  then have "loop_body run ls hook (p\<lparr>recvs := rs @ Recv_msg now m # later\<rparr>) w1
               = Inl (Raise e, (v, st2))"
    using reached by (simp add: loop_body_recvs_append)
  moreover have "thread_loop run ls hook ps (thread_locals t0, st0) = Inr w1"
    using alive by (auto simp: mavlink_thread_def split: sum.splits prod.splits stop.splits if_splits)
  ultimately have "thread_loop run ls hook
                     (ps @ p\<lparr>recvs := rs @ Recv_msg now m # later\<rparr> # rest) (thread_locals t0, st0)
                   = Inl (Raise e, (v, st2))"
    by (simp add: thread_loop_append)
  then have "mavlink_thread run ls hook t0
               (ps @ p\<lparr>recvs := rs @ Recv_msg now m # later\<rparr> # rest) st0
             = Inl (if exiting st2 then Return else Raise e, (v, st2))"
    using mavlink_thread_raise [of run ls hook _ t0 st0 e "(v, st2)"] by simp
  then show "\<exists>v. mavlink_thread run ls hook t0
                 (ps @ p\<lparr>recvs := rs @ Recv_msg now m # later\<rparr> # rest) st0
               = Inl (if exiting st2 then Return else Raise e, (v, st2))"
    by blast
qed

theorem listener_exception_ends_worker_witness:
  "mavlink_thread faulty three_listeners None 0 [] new_link = Inr (thread_locals 0, new_link)
   \<and> get_listeners three_listeners (get_type HEARTBEAT) @ get_listeners three_listeners ''*''
       = [] @ 0 # [1, 2]
   \<and> (\<exists>v. mavlink_thread faulty three_listeners None 0 [heartbeat_then_current] new_link
         = Inl (Raise (Exception ''listener failed''),
             (v, after (before_dispatch 0 HEARTBEAT
                   (final (loop_body faulty three_listeners None (idle_at 0)
                      (thread_locals 0, new_link)))))))"
proof -
  let ?w1 = "(thread_locals 0, new_link)"
  let ?b = "loop_body faulty three_listeners None (idle_at 0) ?w1"
  let ?d = "before_dispatch 0 HEARTBEAT (final ?b)"
  have alive: "mavlink_thread faulty three_listeners None 0 [] new_link = Inr ?w1"
    by (simp add: mavlink_thread_def)
  have "case ?b of Inl x \<Rightarrow> False | Inr w \<Rightarrow> True" by code_simp
  then have "?b = Inr (final ?b)" by (cases ?b) simp_all
  then have reached:
    "loop_body faulty three_listeners None ((idle_at 0)\<lparr>recvs := []\<rparr>) ?w1 = Inr (final ?b)"
    by (simp add: idle_at_def)
  have "case ?d of Inl x \<Rightarrow> False | Inr w \<Rightarrow> True" by code_simp
  then have stages: "?d = Inr (after ?d)" by (cases ?d) simp_all
  have listeners:
    "get_listeners three_listeners (get_type HEARTBEAT) @ get_listeners three_listeners ''*''
       = [] @ 0 # [1, 2]"
    by (simp add: three_listeners_def on_message_def get_listeners_def)
  have returned:
    "snd (call_listeners faulty [] (get_type HEARTBEAT) HEARTBEAT (after ?d)) = Inr (after ?d)"
    by simp
  have raised: "faulty 0 (get_type HEARTBEAT) HEARTBEAT (after ?d)
                  = Inl (Exception ''listener failed'', after ?d)"
    by (simp add: faulty_def)
  have p: "(idle_at 0)\<lparr>recvs := [Recv_msg 0 HEARTBEAT, Recv_msg 0 (MISSION_CURRENT 3)]\<rparr>
             = heartbeat_then_current"
    by (simp add: idle_at_def heartbeat_then_current_def)
  have x: "\<not> exiting (after ?d)" by code_simp
  show ?thesis
    using listener_exception_ends_worker [OF alive reached stages listeners returned raised,
        of "[Recv_msg 0 (MISSION_CURRENT 3)]" "[]", THEN conjunct2] alive listeners
    by (simp only: p x if_False append_Nil simp_thms)
qed

text \<open>
  C3 as stated fails: callback 0 raises on a \<^verbatim>\<open>HEARTBEAT\<close>, callbacks 1 and 2 are never
  called (nothing is recorded), the next message is not handled (\<open>last_waypoint\<close> stays 0)
  and the worker ends with the exception.
\<close>

theorem listener_exception_counterexample:
  "fst (mavlink_packet faulty three_listeners None HEARTBEAT new_link) = [0]
   \<and> get_listeners three_listeners ''HEARTBEAT'' = [0, 1]
   \<and> get_listeners three_listeners ''*'' = [2]
   \<and> (case mavlink_thread faulty three_listeners None 0 [heartbeat_then_current] new_link of
         Inl (Raise (Exception x), w) \<Rightarrow>
           x = ''listener failed'' \<and> notified (snd w) = [] \<and> last_waypoint (snd w) = 0
       | r \<Rightarrow> False)"
  by code_simp

subsection \<open>Closing the link\<close>

lemma close_wait_polls:
  "out_queue (snd ((world ^^ n) w)) = [] \<Longrightarrow>
   (\<forall>k<n. out_queue (snd ((world ^^ k) w)) \<noteq> []) \<Longrightarrow>
   close_wait world w = Some ((world ^^ n) w)"
proof (induction n arbitrary: w)
  case 0
  then show ?case by (simp add: close_wait.simps)
next
  case (Suc n)
  have q: "out_queue (snd w) \<noteq> []" using Suc.prems(2) [rule_format, of 0] by simp
  have e: "out_queue (snd ((world ^^ n) (world w))) = []"
    using Suc.prems(1) by (simp add: funpow_swap1)
  have b: "\<forall>k<n. out_queue (snd ((world ^^ k) (world w))) \<noteq> []"
  proof (intro allI impI)
    fix k assume "k < n"
    then show "out_queue (snd ((world ^^ k) (world w))) \<noteq> []"
      using Suc.prems(2) [rule_format, of "Suc k"] by (simp add: funpow_swap1)
  qed
  have "close_wait world (world w) = Some ((world ^^ n) (world w))"
    using e b by (rule Suc.IH)
  then show ?case using q by (subst close_wait.simps) (simp add: funpow_swap1)
qed

lemma close_wait_returns:
  "close_wait world w = Some w' \<Longrightarrow>
   \<exists>n. out_queue (snd ((world ^^ n) w)) = []
       \<and> (\<forall>k<n. out_queue (snd ((world ^^ k) w)) \<noteq> []) \<and> w' = (world ^^ n) w"
proof (induction rule: close_wait.raw_induct [rotated 1, consumes 1])
  case (1 close_wait' world w w')
  show ?case
  proof (cases "out_queue (snd w) = []")
    case True
    then have "w' = w" using 1(2) by simp
    then have "out_queue (snd ((world ^^ 0) w)) = []
               \<and> (\<forall>k<0. out_queue (snd ((world ^^ k) w)) \<noteq> []) \<and> w' = (world ^^ 0) w"
      using True by simp
    then show ?thesis by blast
  next
    case False
    then have "close_wait' world (world w) = Some w'" using 1(2) by simp
    then obtain n where n: "out_queue (snd ((world ^^ n) (world w))) = []"
      and b: "\<forall>k<n. out_queue (snd ((world ^^ k) (world w))) \<noteq> []"
      and w': "w' = (world ^^ n) (world w)"
      using 1(1) by blast
    have "\<forall>k<Suc n. out_queue (snd ((world ^^ k) w)) \<noteq> []"
    proof (intro allI impI)
      fix k assume k: "k < Suc n"
      show "out_queue (snd ((world ^^ k) w)) \<noteq> []"
      proof (cases k)
        case 0
        then show ?thesis using False by simp
      next
        case (Suc j)
        then show ?thesis using b k by (simp add: funpow_swap1)
      qed
    qed
    then have "out_queue (snd ((world ^^ Suc n) w)) = []
               \<and> (\<forall>k<Suc n. out_queue (snd ((world ^^ k) w)) \<noteq> [])
               \<and> w' = (world ^^ Suc n) w"
      using n w' by (simp add: funpow_swap1)
    then show ?thesis by blast
  qed
qed

lemma close_wait_Some_iff:
  "(close_wait world w = Some w') =
     (\<exists>n. out_queue (snd ((world ^^ n) w)) = []
         \<and> (\<forall>k<n. out_queue (snd ((world ^^ k) w)) \<noteq> []) \<and> w' = (world ^^ n) w)"
proof
  assume "close_wait world w = Some w'"
  then show "\<exists>n. out_queue (snd ((world ^^ n) w)) = []
         \<and> (\<forall>k<n. out_queue (snd ((world ^^ k) w)) \<noteq> []) \<and> w' = (world ^^ n) w"
    by (rule close_wait_returns)
next
  assume "\<exists>n. out_queue (snd ((world ^^ n) w)) = []
         \<and> (\<forall>k<n. out_queue (snd ((world ^^ k) w)) \<noteq> []) \<and> w' = (world ^^ n) w"
  then obtain n where "out_queue (snd ((world ^^ n) w)) = []"
    and "\<forall>k<n. out_queue (snd ((world ^^ k) w)) \<noteq> []" and "w' = (world ^^ n) w" by blast
  then show "close_wait world w = Some w'" using close_wait_polls by simp
qed

lemma close_wait_None_iff:
  "(close_wait world w = None) = (\<forall>n. out_queue (snd ((world ^^ n) w)) \<noteq> [])"
proof
  assume n: "close_wait world w = None"
  show "\<forall>n. out_queue (snd ((world ^^ n) w)) \<noteq> []"
  proof (rule ccontr)
    assume "\<not> (\<forall>n. out_queue (snd ((world ^^ n) w)) \<noteq> [])"
    then have ex: "\<exists>n. out_queue (snd ((world ^^ n) w)) = []" by simp
    define n0 where "n0 = (LEAST n. out_queue (snd ((world ^^ n) w)) = [])"
    have "out_queue (snd ((world ^^ n0) w)) = []"
      unfolding n0_def using ex by (rule LeastI_ex)
    moreover have "\<forall>k<n0. out_queue (snd ((world ^^ k) w)) \<noteq> []"
      unfolding n0_def using not_less_Least by blast
    ultimately have "close_wait world w = Some ((world ^^ n0) w)" by (rule close_wait_polls)
    then show False using n by simp
  qed
next
  assume a: "\<forall>n. out_queue (snd ((world ^^ n) w)) \<noteq> []"
  show "close_wait world w = None"
  proof (cases "close_wait world w")
    case None
    then show ?thesis .
  next
    case (Some w')
    then show ?thesis using close_wait_returns [OF Some] a by blast
  qed
qed


lemma close_None_iff:
  "(close world w = None) =
     (\<forall>n. out_queue (snd ((world ^^ n) (fst w, (snd w)\<lparr>exiting := True\<rparr>))) \<noteq> [])"
proof -
  have "(close world w = None) = (close_wait world (fst w, (snd w)\<lparr>exiting := True\<rparr>) = None)"
    by (cases "close_wait world (fst w, (snd w)\<lparr>exiting := True\<rparr>)") (simp_all add: close_def)
  then show ?thesis by (simp only: close_wait_None_iff)
qed

text \<open>
  C9 as the code has it.  \<^verbatim>\<open>close\<close> sets \<open>exiting\<close>, then polls the outbound queue, and
  closes the connection after the first poll that finds the queue empty.  The wait has
  no bound: \<^verbatim>\<open>close\<close> returns exactly when some poll finds the queue empty, and never
  returns when the queue stays non-empty (the source's own comment says it can block
  forever).
\<close>

theorem close_waits_for_empty_queue:
  "(close world w = Some w') =
     (\<exists>n. out_queue (snd ((world ^^ n) (fst w, (snd w)\<lparr>exiting := True\<rparr>))) = []
         \<and> (\<forall>k<n. out_queue (snd ((world ^^ k) (fst w, (snd w)\<lparr>exiting := True\<rparr>))) \<noteq> [])
         \<and> w' = (fst ((world ^^ n) (fst w, (snd w)\<lparr>exiting := True\<rparr>)),
                  (snd ((world ^^ n) (fst w, (snd w)\<lparr>exiting := True\<rparr>)))\<lparr>master_closed := True\<rparr>))
   \<and> (close world w = None) =
       (\<forall>n. out_queue (snd ((world ^^ n) (fst w, (snd w)\<lparr>exiting := True\<rparr>))) \<noteq> [])"
proof
  let ?w0 = "(fst w, (snd w)\<lparr>exiting := True\<rparr>)"
  show "(close world w = Some w') =
     (\<exists>n. out_queue (snd ((world ^^ n) ?w0)) = []
         \<and> (\<forall>k<n. out_queue (snd ((world ^^ k) ?w0)) \<noteq> [])
         \<and> w' = (fst ((world ^^ n) ?w0), (snd ((world ^^ n) ?w0))\<lparr>master_closed := True\<rparr>))"
  proof
    assume "close world w = Some w'"
    then obtain w1 where c: "close_wait world ?w0 = Some w1"
      and w': "w' = (fst w1, (snd w1)\<lparr>master_closed := True\<rparr>)"
      by (auto simp: close_def split: option.splits)
    from close_wait_returns [OF c] w'
    show "\<exists>n. out_queue (snd ((world ^^ n) ?w0)) = []
         \<and> (\<forall>k<n. out_queue (snd ((world ^^ k) ?w0)) \<noteq> [])
         \<and> w' = (fst ((world ^^ n) ?w0), (snd ((world ^^ n) ?w0))\<lparr>master_closed := True\<rparr>)"
      by blast
  next
    assume "\<exists>n. out_queue (snd ((world ^^ n) ?w0)) = []
         \<and> (\<forall>k<n. out_queue (snd ((world ^^ k) ?w0)) \<noteq> [])
         \<and> w' = (fst ((world ^^ n) ?w0), (snd ((world ^^ n) ?w0))\<lparr>master_closed := True\<rparr>)"
    then obtain n where e: "out_queue (snd ((world ^^ n) ?w0)) = []"
      and b: "\<forall>k<n. out_queue (snd ((world ^^ k) ?w0)) \<noteq> []"
      and w': "w' = (fst ((world ^^ n) ?w0), (snd ((world ^^ n) ?w0))\<lparr>master_closed := True\<rparr>)"
      by blast
    have "close_wait world ?w0 = Some ((world ^^ n) ?w0)" using e b by (rule close_wait_polls)
    then show "close world w = Some w'" using w' by (simp add: close_def)
  qed
  show "(close world w = None) = (\<forall>n. out_queue (snd ((world ^^ n) ?w0)) \<noteq> [])"
    by (rule close_None_iff)
qed

theorem close_waits_for_empty_queue_witness:
  "out_queue (snd (fst queued, (snd queued)\<lparr>exiting := True\<rparr>)) \<noteq> []
   \<and> out_queue (snd (alive_worker (fst queued, (snd queued)\<lparr>exiting := True\<rparr>))) = []
   \<and> close alive_worker queued =
       Some (fst (alive_worker (fst queued, (snd queued)\<lparr>exiting := True\<rparr>)),
             (snd (alive_worker (fst queued, (snd queued)\<lparr>exiting := True\<rparr>)))
               \<lparr>master_closed := True\<rparr>)"
proof -
  let ?w0 = "(fst queued, (snd queued)\<lparr>exiting := True\<rparr>)"
  have a: "out_queue (snd ?w0) \<noteq> []" by code_simp
  have b: "out_queue (snd (alive_worker ?w0)) = []" by code_simp
  have "\<exists>n. out_queue (snd ((alive_worker ^^ n) ?w0)) = []
         \<and> (\<forall>k<n. out_queue (snd ((alive_worker ^^ k) ?w0)) \<noteq> [])
         \<and> (fst (alive_worker ?w0), (snd (alive_worker ?w0))\<lparr>master_closed := True\<rparr>)
             = (fst ((alive_worker ^^ n) ?w0),
                (snd ((alive_worker ^^ n) ?w0))\<lparr>master_closed := True\<rparr>)"
    using a b by (intro exI [of _ 1]) simp
  then have "close alive_worker queued =
       Some (fst (alive_worker ?w0), (snd (alive_worker ?w0))\<lparr>master_closed := True\<rparr>)"
    by (simp only: close_waits_for_empty_queue [THEN conjunct1])
  then show ?thesis using a b by simp
qed

text \<open>
  C9 as stated fails: the worker has returned on a failed write and left a message on
  the queue; nothing takes it off any more, and \<^verbatim>\<open>close\<close> never returns.
\<close>

theorem close_blocks_counterexample:
  "(case mavlink_thread quiet Map.empty None 0 [fatal_send] new_link of
      Inl (Return, w) \<Rightarrow> out_queue (snd w) = [Waypoint_count_send 2]
    | r \<Rightarrow> False)
   \<and> close (\<lambda>w. w) (final (mavlink_thread quiet Map.empty None 0 [fatal_send] new_link)) = None"
proof
  let ?w = "final (mavlink_thread quiet Map.empty None 0 [fatal_send] new_link)"
  show "case mavlink_thread quiet Map.empty None 0 [fatal_send] new_link of
      Inl (Return, w) \<Rightarrow> out_queue (snd w) = [Waypoint_count_send 2]
    | r \<Rightarrow> False"
    by code_simp
  have q: "out_queue (snd ?w) = [Waypoint_count_send 2]" by code_simp
  have i: "((\<lambda>w :: worker. w) ^^ n) = (\<lambda>w. w)" for n by (induction n) auto
  have "\<forall>n. out_queue (snd (((\<lambda>w. w) ^^ n) (fst ?w, (snd ?w)\<lparr>exiting := True\<rparr>))) \<noteq> []"
    using q by (simp add: i)
  then show "close (\<lambda>w. w) ?w = None"
    unfolding close_None_iff .
qed

end
